theory Spec2Isabelle
  imports Complex_Main "HOL-Library.Sublist"
begin

section \<open>Entities\<close>

text \<open>
  JavaScript numbers are IEEE 754 binary64 values, and the development reads the
  arithmetic of the code in two ways. Where a property does not depend on rounding (the
  order in which a loop visits its particles, the activity flag, the player's size and
  sprite index, spawning, game over, the symmetry of the collision test), a number is a
  real and the operators are the exact ones. Where a property depends on rounding (the
  boundary of the collision test, the burn-out of the particle effects), the operators are
  those of binary64, defined below: the exact result rounded to the nearest double.

  The base class \<open>ImageSprite\<close> is not part of the sources at hand. The fields that
  \<open>Player\<close> and \<open>Obstacle\<close> read and write on \<open>this\<close> are kept as plain
  record fields: position \<open>x\<close>, \<open>y\<close>, centre \<open>cx\<close>, \<open>cy\<close>, size and the
  stored collision \<open>radius\<close>, and the current \<open>image\<close> (\<open>None\<close> is
  JavaScript's \<open>undefined\<close>). Images are named by their asset key.
\<close>

record sprite =
  x :: real
  y :: real
  cx :: real
  cy :: real
  width :: real
  height :: real
  radius :: real
  image :: "string option"

text \<open>\<open>Obstacle\<close>: the constructor sets \<open>type\<close>, \<open>active = true\<close>, \<open>munches = 0\<close>
  (the constant \<open>bounds\<close> object is never read in the sources at hand).\<close>

record obstacle = sprite +
  type :: string
  active :: bool
  munches :: nat

definition Obstacle :: "sprite \<Rightarrow> string \<Rightarrow> obstacle" where
  "Obstacle base ty = sprite.extend base \<lparr>type = ty, active = True, munches = 0\<rparr>"

definition munch :: "obstacle \<Rightarrow> obstacle" where
  "munch this = this\<lparr>munches := munches this + 1\<rparr>"

text \<open>\<open>collidesWith(entity)\<close>: the receiver is \<open>this\<close>, the argument any sprite.\<close>

definition collidesWith :: "'a sprite_scheme \<Rightarrow> 'b sprite_scheme \<Rightarrow> bool" where
  "collidesWith this entity =
     (let vx = cx entity - cx this;
          vy = cy entity - cy this;
          distance = sqrt (vx * vx + vy * vy)
      in distance < radius entity + radius this)"

text \<open>\<open>collisionsWith(entities)\<close>: \<open>Object.entries(entities).find(...) ? true : false\<close>; the
  values of the object in key order are given as a list.\<close>

definition collisionsWith :: "'a sprite_scheme \<Rightarrow> 'b sprite_scheme list \<Rightarrow> bool" where
  "collisionsWith this entities =
     (case find (\<lambda>ent. collidesWith this ent) entities of Some _ \<Rightarrow> True | None \<Rightarrow> False)"


section \<open>Player\<close>

text \<open>
  Only a division can leave the finite numbers here (\<open>this.width / max\<close> with
  \<open>max = 0\<close>), so the sprite index is computed in JavaScript's extended numbers: a finite
  real, \<open>Infinity\<close>, \<open>-Infinity\<close> or \<open>NaN\<close>.
\<close>

datatype jsnum = Fin real | PosInf | NegInf | NaN

text \<open>\<open>a / b\<close> on finite operands.\<close>

definition js_div :: "real \<Rightarrow> real \<Rightarrow> jsnum" where
  "js_div a b =
     (if b \<noteq> 0 then Fin (a / b)
      else if 0 < a then PosInf else if a < 0 then NegInf else NaN)"

text \<open>\<open>v * images.length\<close>: the right operand is an array length.\<close>

fun js_times_length :: "jsnum \<Rightarrow> nat \<Rightarrow> jsnum" where
  "js_times_length (Fin v) len = Fin (v * real len)"
| "js_times_length PosInf len = (if len = 0 then NaN else PosInf)"
| "js_times_length NegInf len = (if len = 0 then NaN else NegInf)"
| "js_times_length NaN len = NaN"

text \<open>\<open>Math.round(v)\<close> rounds half up: \<open>floor (v + 0.5)\<close>.\<close>

fun Math_round :: "jsnum \<Rightarrow> jsnum" where
  "Math_round (Fin v) = Fin (of_int \<lfloor>v + 1 / 2\<rfloor>)"
| "Math_round v = v"

text \<open>\<open>v - 1\<close>.\<close>

fun js_minus_one :: "jsnum \<Rightarrow> jsnum" where
  "js_minus_one (Fin v) = Fin (v - 1)"
| "js_minus_one v = v"

text \<open>\<open>Math.min(v, b)\<close> with a finite second operand.\<close>

fun Math_min :: "jsnum \<Rightarrow> real \<Rightarrow> jsnum" where
  "Math_min (Fin v) b = Fin (min v b)"
| "Math_min PosInf b = Fin b"
| "Math_min NegInf b = NegInf"
| "Math_min NaN b = NaN"

text \<open>
  Modelled from the spec: \<open>bounded\<close> of \<open>utils/baseUtils.js\<close>, which is not among the
  sources. The specification says the index is "clamped to the valid index range": values
  below \<open>lo\<close> become \<open>lo\<close>, values above \<open>hi\<close> become \<open>hi\<close>; \<open>NaN\<close>
  compares false with everything and passes through.
\<close>

fun bounded :: "jsnum \<Rightarrow> real \<Rightarrow> real \<Rightarrow> jsnum" where
  "bounded (Fin v) lo hi = Fin (if v < lo then lo else if hi < v then hi else v)"
| "bounded PosInf lo hi = Fin hi"
| "bounded NegInf lo hi = Fin lo"
| "bounded NaN lo hi = NaN"

text \<open>\<open>images[idx]\<close>: an element when \<open>idx\<close> is an integer in \<open>0 .. length - 1\<close>,
  otherwise \<open>undefined\<close>.\<close>

definition valid_index :: "jsnum \<Rightarrow> nat \<Rightarrow> bool" where
  "valid_index idx len =
     (case idx of Fin v \<Rightarrow> v = of_int \<lfloor>v\<rfloor> \<and> 0 \<le> v \<and> v \<le> real len - 1 | _ \<Rightarrow> False)"

definition js_index :: "'a list \<Rightarrow> jsnum \<Rightarrow> 'a option" where
  "js_index xs idx =
     (case idx of
        Fin v \<Rightarrow> if valid_index idx (length xs) then Some (xs ! nat \<lfloor>v\<rfloor>) else None
      | _ \<Rightarrow> None)"

record player = sprite +
  originalWidth :: real
  originalHeight :: real
  images :: "string list"

text \<open>The constructor: \<open>base\<close> is the object after \<open>super(options)\<close>; \<open>w\<close>,
  \<open>h\<close>, \<open>imgs\<close> are \<open>options.width\<close>, \<open>options.height\<close>,
  \<open>options.images\<close>.\<close>

definition Player :: "sprite \<Rightarrow> real \<Rightarrow> real \<Rightarrow> string list \<Rightarrow> player" where
  "Player base w h imgs =
     sprite.extend base \<lparr>originalWidth = w, originalHeight = h, images = imgs\<rparr>"

subsection \<open>\<open>frontend/game/characters/player.js\<close>\<close>

text \<open>\<open>canvas_width\<close> is \<open>this.ctx.canvas.width\<close>.\<close>

definition sprite_index :: "real \<Rightarrow> player \<Rightarrow> jsnum" where
  "sprite_index canvas_width this =
     (let max = canvas_width / 2;
          i = js_times_length (js_div (width this) max) (length (images this))
      in bounded (js_minus_one (Math_round i)) 0 (real (length (images this)) - 1))"

definition update :: "real \<Rightarrow> player \<Rightarrow> player" where
  "update canvas_width this =
     this\<lparr>image := js_index (images this) (sprite_index canvas_width this)\<rparr>"

definition eat :: "real \<Rightarrow> player \<Rightarrow> player" where
  "eat canvas_width this =
     (let this1 = this\<lparr>width := width this + 1\<rparr>;
          this2 = this1\<lparr>height := height this1 + 1\<rparr>;
          this3 = this2\<lparr>radius := (width this2 + height this2) / 4\<rparr>
      in update canvas_width this3)"

definition blaze :: "real \<Rightarrow> player \<Rightarrow> player" where
  "blaze canvas_width this =
     (let this1 = this\<lparr>width := originalWidth this\<rparr>;
          this2 = this1\<lparr>height := originalHeight this1\<rparr>
      in update canvas_width this2)"

subsection \<open>The second \<open>player.js\<close> (no lower clamp, no radius)\<close>

definition sprite_index_v2 :: "real \<Rightarrow> player \<Rightarrow> jsnum" where
  "sprite_index_v2 canvas_width this =
     (let max = canvas_width / 2;
          i = js_times_length (js_div (width this) max) (length (images this))
      in Math_min (js_minus_one (Math_round i)) (real (length (images this)) - 1))"

definition update_v2 :: "real \<Rightarrow> player \<Rightarrow> player" where
  "update_v2 canvas_width this =
     this\<lparr>image := js_index (images this) (sprite_index_v2 canvas_width this)\<rparr>"

definition eat_v2 :: "real \<Rightarrow> player \<Rightarrow> player" where
  "eat_v2 canvas_width this =
     (let this1 = this\<lparr>width := width this + 1\<rparr>;
          this2 = this1\<lparr>height := height this1 + 1\<rparr>
      in update_v2 canvas_width this2)"

definition blaze_v2 :: "real \<Rightarrow> player \<Rightarrow> player" where
  "blaze_v2 canvas_width this =
     (let this1 = this\<lparr>width := originalWidth this\<rparr>;
          this2 = this1\<lparr>height := originalHeight this1\<rparr>
      in update_v2 canvas_width this2)"

subsection \<open>\<open>game/characters/player.js\<close> (only \<open>eat\<close>)\<close>

definition eat_v3 :: "'a sprite_scheme \<Rightarrow> 'a sprite_scheme" where
  "eat_v3 this =
     (let this1 = this\<lparr>width := width this + 1 / 2\<rparr>
      in this1\<lparr>height := height this1 + 1 / 2\<rparr>)"

text \<open>A sequence of \<open>eat()\<close> calls.\<close>

primrec eats :: "nat \<Rightarrow> real \<Rightarrow> player \<Rightarrow> player" where
  "eats 0 canvas_width this = this"
| "eats (Suc k) canvas_width this = eat canvas_width (eats k canvas_width this)"

primrec eats_v2 :: "nat \<Rightarrow> real \<Rightarrow> player \<Rightarrow> player" where
  "eats_v2 0 canvas_width this = this"
| "eats_v2 (Suc k) canvas_width this = eat_v2 canvas_width (eats_v2 k canvas_width this)"

section \<open>Particle effects (\<open>game/objects/effects.js\<close>)\<close>

text \<open>
  An emitter argument is either a number or a two-element array \<open>[min, max]\<close>.
\<close>

datatype vr = Scalar real | Range real real

text \<open>
  Randomness is made explicit: \<open>draw k j\<close> is the value of \<open>Math.random()\<close>, a number
  from 0 up to 1, that resolves field \<open>j\<close> of particle \<open>k\<close> of an emitter call (the
  fields counted in the order of the object literal; a scalar field uses no draw).
\<close>

type_synonym draws = "nat \<Rightarrow> nat \<Rightarrow> real"

text \<open>
  Modelled from the spec: \<open>randomBetween\<close>, \<open>valueOrRange\<close> and \<open>pickFromList\<close> of
  \<open>utils/baseUtils.js\<close>, which is not among the sources. A range is resolved by uniform
  sampling over \<open>[min, max]\<close>, a scalar is passed through unchanged, and a discrete field
  is a uniform pick from the given list.
\<close>

definition randomBetween :: "real \<Rightarrow> real \<Rightarrow> real \<Rightarrow> real" where
  "randomBetween lo hi u = lo + u * (hi - lo)"

definition valueOrRange :: "vr \<Rightarrow> real \<Rightarrow> real" where
  "valueOrRange v u = (case v of Scalar c \<Rightarrow> c | Range lo hi \<Rightarrow> randomBetween lo hi u)"

definition pickFromList :: "'a list \<Rightarrow> real \<Rightarrow> 'a" where
  "pickFromList xs u = xs ! min (nat \<lfloor>u * real (length xs)\<rfloor>) (length xs - 1)"

record shard =
  image :: "string option"
  x :: real
  y :: real
  r :: real
  rd :: real
  vx :: real
  vy :: real
  dr :: real

record wave =
  x :: real
  y :: real
  width :: real
  rd :: real
  hue :: real
  alpha :: real

definition imagePraticleEmitter ::
  "nat \<Rightarrow> vr \<Rightarrow> vr \<Rightarrow> vr \<Rightarrow> vr \<Rightarrow> vr \<Rightarrow> vr \<Rightarrow> string option \<Rightarrow> draws \<Rightarrow> shard list" where
  "imagePraticleEmitter n x0 y0 vx0 vy0 r0 rd0 image0 draw =
     map (\<lambda>k. \<lparr>shard.image = image0,
                x = valueOrRange x0 (draw k 0),
                y = valueOrRange y0 (draw k 1),
                r = valueOrRange r0 (draw k 2),
                rd = valueOrRange rd0 (draw k 3),
                vx = valueOrRange vx0 (draw k 4),
                vy = valueOrRange vy0 (draw k 5),
                dr = pickFromList [1, - 1] (draw k 6)\<rparr>) [0..<n]"

definition radialWaveEmitter ::
  "nat \<Rightarrow> vr \<Rightarrow> vr \<Rightarrow> vr \<Rightarrow> vr \<Rightarrow> vr \<Rightarrow> vr \<Rightarrow> draws \<Rightarrow> wave list" where
  "radialWaveEmitter n x0 y0 rd0 width0 hue0 alpha0 draw =
     map (\<lambda>k. \<lparr>wave.x = valueOrRange x0 (draw k 0),
                y = valueOrRange y0 (draw k 1),
                width = valueOrRange width0 (draw k 2),
                rd = valueOrRange rd0 (draw k 3),
                hue = valueOrRange hue0 (draw k 4),
                alpha = valueOrRange alpha0 (draw k 5)\<rparr>) [0..<n]"

subsection \<open>\<open>Burst\<close>\<close>

text \<open>
  Of the fields the constructor sets, \<open>tick\<close> reads \<open>active\<close>, \<open>burnRate\<close> and
  \<open>shards\<close> (and \<open>ctx\<close>, to draw); \<open>id\<close>, \<open>type\<close> and \<open>center\<close> are left out.
\<close>

record burst =
  active :: bool
  burnRate :: real
  shards :: "shard list"

text \<open>\<open>v || d\<close> for an optional value-or-range: \<open>undefined\<close> and the number 0 are falsy.\<close>

definition or_default :: "vr option \<Rightarrow> vr \<Rightarrow> vr" where
  "or_default v d =
     (case v of None \<Rightarrow> d | Some (Scalar c) \<Rightarrow> if c = 0 then d else Scalar c | Some w \<Rightarrow> w)"

text \<open>The constructor; every caller passes \<open>n\<close> (its default is 10) and \<open>burnRate\<close>.\<close>

definition Burst ::
  "nat \<Rightarrow> string option \<Rightarrow> vr \<Rightarrow> vr \<Rightarrow> vr option \<Rightarrow> vr option \<Rightarrow> real \<Rightarrow> draws \<Rightarrow> burst" where
  "Burst n image0 x0 y0 vx0 vy0 burnRate0 draw =
     \<lparr>burst.active = True,
      burnRate = burnRate0,
      shards = imagePraticleEmitter n x0 y0
                 (or_default vx0 (Range (- 10) 10)) (or_default vy0 (Range (- 10) 10))
                 (Scalar 0) (Range 5 20) image0 draw\<rparr>"

text \<open>One pass through the body of the \<open>for\<close> loop for the shard at index \<open>i\<close>: the
  shard after its update.\<close>

definition advance_shard :: "real \<Rightarrow> shard \<Rightarrow> shard" where
  "advance_shard b s =
     s\<lparr>shard.x := shard.x s + vx s,
       shard.y := shard.y s + vy s,
       r := r s + (1 / 10) * dr s,
       shard.rd := \<bar>shard.rd s - b\<bar>\<rparr>"

text \<open>\<open>xs.splice(i, 1)\<close>.\<close>

definition splice1 :: "nat \<Rightarrow> 'a list \<Rightarrow> 'a list" where
  "splice1 i xs = take i xs @ drop (Suc i) xs"

lemma length_splice1: "length (splice1 i xs) = (if i < length xs then length xs - 1 else length xs)"
  by (auto simp: splice1_def)

text \<open>
  The \<open>for\<close> loop of \<open>Burst.tick\<close> from index \<open>i\<close> on. The second component collects
  the shards handed to \<open>drawImageParticle\<close>, in order, as they are when drawn.
\<close>

function burst_loop :: "real \<Rightarrow> nat \<Rightarrow> shard list \<Rightarrow> shard list \<Rightarrow> shard list \<times> shard list" where
  "burst_loop b i sh drawn =
     (if i < length sh then
        let shard' = advance_shard b (sh ! i);
            sh' = (if shard.rd shard' < 1 then splice1 i (sh[i := shard']) else sh[i := shard'])
        in burst_loop b (i + 1) sh' (drawn @ [shard'])
      else (sh, drawn))"
  by pat_completeness auto
termination
  by (relation "measure (\<lambda>(b, i, sh, drawn). length sh - i)") (auto simp: length_splice1)

declare burst_loop.simps [simp del]

definition Burst_tick :: "burst \<Rightarrow> burst \<times> shard list" where
  "Burst_tick this =
     (if \<not> burst.active this then (this, [])
      else if length (shards this) = 0 then (this\<lparr>burst.active := False\<rparr>, [])
      else let (sh', drawn) = burst_loop (burnRate this) 0 (shards this) []
           in (this\<lparr>shards := sh'\<rparr>, drawn))"

text \<open>The effect after \<open>k\<close> calls of \<open>tick\<close>.\<close>

primrec Burst_ticks :: "nat \<Rightarrow> burst \<Rightarrow> burst" where
  "Burst_ticks 0 this = this"
| "Burst_ticks (Suc k) this = fst (Burst_tick (Burst_ticks k this))"

subsection \<open>\<open>BlastWave\<close>\<close>

record blastWave =
  active :: bool
  burnRate :: real
  waves :: "wave list"

text \<open>
  The constructor. \<open>burnRate0\<close> is a number or an array (\<open>Array.isArray(burnRate)\<close>) and
  defaults to 100, \<open>width0\<close> defaults to 50; \<open>hue0\<close> is \<open>colorConvert.hex.hsl(color)[0]\<close>,
  computed by a library outside the repository. \<open>u\<close> is the draw used for the burn rate,
  \<open>draw\<close> the draws of the emitter, which is called without \<open>n\<close> and so emits one wave.
\<close>

definition BlastWave :: "vr \<Rightarrow> vr \<Rightarrow> vr \<Rightarrow> real \<Rightarrow> vr \<Rightarrow> real \<Rightarrow> draws \<Rightarrow> blastWave" where
  "BlastWave x0 y0 width0 hue0 burnRate0 u draw =
     \<lparr>blastWave.active = True,
      burnRate = (case burnRate0 of Range lo hi \<Rightarrow> randomBetween lo hi u | Scalar c \<Rightarrow> c) / 100,
      waves = radialWaveEmitter 1 x0 y0 (Scalar 25) width0 (Scalar hue0) (Scalar 1) draw\<rparr>"

definition advance_wave :: "real \<Rightarrow> wave \<Rightarrow> wave" where
  "advance_wave b w =
     w\<lparr>wave.rd := wave.rd w + b * 8,
       wave.width := wave.width w - b / 2,
       hue := hue w - b / 2,
       alpha := alpha w - b * (75 / 10000)\<rparr>"

function wave_loop :: "real \<Rightarrow> nat \<Rightarrow> wave list \<Rightarrow> wave list \<Rightarrow> wave list \<times> wave list" where
  "wave_loop b i ws drawn =
     (if i < length ws then
        let wave' = advance_wave b (ws ! i);
            ws' = (if wave.width wave' < 1 then splice1 i (ws[i := wave']) else ws[i := wave'])
        in wave_loop b (i + 1) ws' (drawn @ [wave'])
      else (ws, drawn))"
  by pat_completeness auto
termination
  by (relation "measure (\<lambda>(b, i, ws, drawn). length ws - i)") (auto simp: length_splice1)

declare wave_loop.simps [simp del]

definition BlastWave_tick :: "blastWave \<Rightarrow> blastWave \<times> wave list" where
  "BlastWave_tick this =
     (if \<not> blastWave.active this then (this, [])
      else if length (waves this) = 0 then (this\<lparr>blastWave.active := False\<rparr>, [])
      else let (ws', drawn) = wave_loop (blastWave.burnRate this) 0 (waves this) []
           in (this\<lparr>waves := ws'\<rparr>, drawn))"

primrec BlastWave_ticks :: "nat \<Rightarrow> blastWave \<Rightarrow> blastWave" where
  "BlastWave_ticks 0 this = this"
| "BlastWave_ticks (Suc k) this = fst (BlastWave_tick (BlastWave_ticks k this))"

section \<open>The game loop (\<open>main.js\<close>)\<close>

text \<open>\<open>this.state\<close>; the state tags are the strings of the source.\<close>

record gstate =
  current :: string
  prev :: string
  score :: int
  gameSpeed :: real
  paused :: bool
  muted :: bool

text \<open>
  The fields of the \<open>Game\<close> object that \<open>play()\<close> reads or writes. \<open>frame_rate\<close> holds 0
  where the source holds \<open>null\<close> (the two multiply alike). The player is the one of
  \<open>frontend/game/characters/player.js\<close>. Audio (the playlist and the sounds), the overlay
  and the canvas drawing are collaborators outside the loop's own state and are left out.
\<close>

record game =
  state :: gstate
  frame_count :: int
  frame_time :: real
  frame_rate :: real
  frame_scale :: real
  canvas_width :: real
  canvas_height :: real
  screen_right :: real
  screen_bottom :: real
  screen_scale :: real
  playerSize_width :: real
  obstacleSize_width :: real
  input_left :: bool
  input_right :: bool
  effects :: "burst list"
  entities :: "obstacle list"
  player :: player

text \<open>
  What one call of \<open>play()\<close> takes from outside the sources at hand: the helpers of
  \<open>utils/spriteUtils.js\<close> and \<open>utils/imageUtils.js\<close>, the methods and the constructor of
  \<open>ImageSprite\<close>, the random choices made during the frame, and the clock and the frame
  handle that \<open>requestFrame\<close> obtains. \<open>location_x\<close> is the value of
  \<open>randomBetween(0, this.screen.right - this.obstacleSize.width, true)\<close>, \<open>food_pick\<close>
  the draw of \<open>pickFromList\<close>, \<open>collision_draws i\<close> the draws of the burst made for the
  entity at index \<open>i\<close>, and \<open>over_draws\<close> those of the game-over burst.
\<close>

record env =
  getDistance :: "obstacle \<Rightarrow> real \<times> real \<Rightarrow> real"
  collideDistance :: "obstacle \<Rightarrow> player \<Rightarrow> bool"
  resize :: "string \<Rightarrow> real \<Rightarrow> real \<times> real"
  ImageSprite :: "string \<Rightarrow> real \<Rightarrow> real \<Rightarrow> real \<Rightarrow> real \<Rightarrow> real \<Rightarrow> sprite"
  obstacle_move :: "real \<Rightarrow> real \<Rightarrow> real \<Rightarrow> obstacle \<Rightarrow> obstacle"
  player_move :: "real \<Rightarrow> real \<Rightarrow> real \<Rightarrow> player \<Rightarrow> player"
  player_moveTo_y :: "real \<Rightarrow> player \<Rightarrow> player"
  location_x :: real
  food_pick :: real
  collision_draws :: "nat \<Rightarrow> draws"
  over_draws :: draws
  now :: real
  next_handle :: int

text \<open>\<open>setState(patch)\<close>: \<open>{...this.state, ...{prev: this.state.current}, ...patch}\<close>.\<close>

definition setState :: "(gstate \<Rightarrow> gstate) \<Rightarrow> game \<Rightarrow> game" where
  "setState patch this = this\<lparr>state := patch ((state this)\<lparr>prev := current (state this)\<rparr>)\<rparr>"

text \<open>The spawn step: "add an obstacle". \<open>this.frame.count % 600 === 0\<close> holds exactly
  when 600 divides the counter, which is what \<open>mod\<close> tests, whatever the sign.\<close>

definition spawn :: "env \<Rightarrow> game \<Rightarrow> game" where
  "spawn e this =
     (let munchTime = (frame_count this mod 600 = 0);
          shouldAddObstacle = (length (entities this) < 6)
      in if munchTime \<or> shouldAddObstacle then
           let location = (location_x e, - 200);
               inValidLocation =
                 list_ex (\<lambda>ent. getDistance e ent location < playerSize_width this * 3)
                   (entities this);
               this1 =
                 (if \<not> inValidLocation \<and> \<not> munchTime then
                    let obstacleSize = resize e ''foodImage1'' (obstacleSize_width this)
                    in this\<lparr>entities := entities this @
                         [Obstacle
                            (ImageSprite e
                               (pickFromList
                                  [''foodImage1'', ''foodImage2'', ''foodImage3'', ''foodImage4'']
                                  (food_pick e))
                               (fst location) (snd location) (fst obstacleSize) (snd obstacleSize)
                               (gameSpeed (state this)))
                            ''food'']\<rparr>
                  else this)
           in if \<not> inValidLocation \<and> munchTime then
                let obstacleSize = resize e ''weedImage'' (obstacleSize_width this1)
                in this1\<lparr>entities := entities this1 @
                     [Obstacle
                        (ImageSprite e ''weedImage''
                           (fst location) (snd location) (fst obstacleSize) (snd obstacleSize)
                           (gameSpeed (state this1)))
                        ''weed'']\<rparr>
              else this1
         else this)"

text \<open>"update and draw effects": the loop from index \<open>i\<close> on.\<close>

function effects_loop :: "nat \<Rightarrow> burst list \<Rightarrow> burst list" where
  "effects_loop i effs =
     (if i < length effs then
        let effect = fst (Burst_tick (effs ! i));
            effs1 = effs[i := effect];
            effs2 = (if \<not> burst.active effect then splice1 i effs1 else effs1)
        in effects_loop (i + 1) effs2
      else effs)"
  by pat_completeness auto
termination
  by (relation "measure (\<lambda>(i, effs). length effs - i)") (auto simp: length_splice1)

declare effects_loop.simps [simp del]

text \<open>The burst made on a collision: \<open>n\<close> shards of the entity's image, spread over the
  player's box, with \<open>vx: [-5, 5]\<close> and \<open>vy: [-10, 1]\<close>.\<close>

definition collision_burst :: "nat \<Rightarrow> string option \<Rightarrow> player \<Rightarrow> real \<Rightarrow> draws \<Rightarrow> burst" where
  "collision_burst n img p rate draw =
     Burst n img
       (Range (sprite.x p) (sprite.x p + sprite.width p))
       (Range (sprite.y p) (sprite.y p + sprite.height p))
       (Some (Range (- 5) 5)) (Some (Range (- 10) 1)) rate draw"

text \<open>The body of the entity loop at index \<open>i\<close>.\<close>

definition entity_step :: "env \<Rightarrow> nat \<Rightarrow> game \<Rightarrow> game" where
  "entity_step e i this =
     (let dx = cos (real_of_int (frame_count this) / 60) / 6;
          entity1 = obstacle_move e dx 1 (frame_scale this) (entities this ! i);
          this1 = this\<lparr>entities := (entities this)[i := entity1]\<rparr>;
          this2 =
            (if collideDistance e entity1 (player this1) then
               let entity2 = munch entity1;
                   a = this1\<lparr>entities := (entities this1)[i := entity2]\<rparr>;
                   b = setState (\<lambda>st. st\<lparr>score := score (state a) + 1\<rparr>) a;
                   c = (if type entity2 = ''food'' then
                          let p = eat (canvas_width b) (player b)
                          in b\<lparr>player := p,
                               effects := effects b @
                                 [collision_burst 1 (sprite.image entity2) p (25 / 1000)
                                    (collision_draws e i)]\<rparr>
                        else b)
               in if type entity2 = ''weed'' then
                    let p = blaze (canvas_width c) (player c)
                    in c\<lparr>player := p,
                         effects := effects c @
                           [collision_burst 20 (sprite.image entity2) p (1 / 100)
                              (collision_draws e i)]\<rparr>
                  else c
             else this1);
          entity3 = entities this2 ! i
      in if sprite.y entity3 > canvas_height this2 \<or> munches entity3 > 5
         then this2\<lparr>entities := splice1 i (entities this2)\<rparr>
         else this2)"

lemma length_entity_step:
  "length (entities (entity_step e i this)) \<le> length (entities this)"
  by (simp add: entity_step_def Let_def setState_def length_splice1)

function entities_loop :: "env \<Rightarrow> nat \<Rightarrow> game \<Rightarrow> game" where
  "entities_loop e i this =
     (if i < length (entities this) then entities_loop e (i + 1) (entity_step e i this)
      else this)"
  by pat_completeness auto
termination
proof (relation "measure (\<lambda>(e, i, this). length (entities this) - i)")
  show "wf (measure (\<lambda>(e, i, this). length (entities this) - i))"
    by simp
next
  fix e :: env and i :: nat and this :: game
  assume "i < length (entities this)"
  moreover have "length (entities (entity_step e i this)) \<le> length (entities this)"
    by (rule length_entity_step)
  ultimately show "((e, i + 1, entity_step e i this), (e, i, this))
      \<in> measure (\<lambda>(e, i, this). length (entities this) - i)"
    by simp
qed

declare entities_loop.simps [simp del]

text \<open>"check for game over".\<close>

definition game_over_check :: "env \<Rightarrow> game \<Rightarrow> game" where
  "game_over_check e this =
     (if sprite.width (player this) > canvas_width this / 2 then
        let p = player this;
            this1 = this\<lparr>effects := effects this @
                      [Burst 200 (Some ''weedImage'')
                         (Range (sprite.x p) (sprite.x p + sprite.width p))
                         (Range (sprite.y p) (sprite.y p + sprite.height p))
                         (Some (Range (- 5) 5)) (Some (Range (- 10) 1)) (1 / 100)
                         (over_draws e)]\<rparr>
        in setState (\<lambda>st. st\<lparr>current := ''over''\<rparr>) this1
      else this)"

text \<open>"player bounce", "move player", "apply movement".\<close>

definition player_step :: "env \<Rightarrow> game \<Rightarrow> game" where
  "player_step e this =
     (let dy = cos (real_of_int (frame_count this) / 5) / 30;
          dx = (if input_left this then - 1 else 0) + (if input_right this then 1 else 0);
          p1 = player_move e dx dy (frame_scale this) (player this);
          p2 = player_moveTo_y e (screen_bottom this - sprite.height p1) p1
      in this\<lparr>player := p2\<rparr>)"

text \<open>The play-state block up to, but not including, the game-over check.\<close>

definition before_check :: "env \<Rightarrow> game \<Rightarrow> game" where
  "before_check e this =
     (let this1 = (if prev (state this) = ''ready''
                   then setState (\<lambda>st. st\<lparr>current := ''play''\<rparr>) this else this);
          this2 = spawn e this1;
          this3 = this2\<lparr>effects := effects_loop 0 (effects this2)\<rparr>
      in entities_loop e 0 this3)"

definition play_block :: "env \<Rightarrow> game \<Rightarrow> game" where
  "play_block e this =
     (if current (state this) = ''play''
      then player_step e (game_over_check e (before_check e this))
      else this)"

text \<open>\<open>this.state.prev.match(/loading|over/)\<close>: the tag contains one of the two words.\<close>

definition ready_block :: "game \<Rightarrow> game" where
  "ready_block this =
     (if current (state this) = ''ready'' then
        if sublist ''loading'' (prev (state this)) \<or> sublist ''over'' (prev (state this))
        then setState (\<lambda>st. st\<lparr>current := ''ready''\<rparr>) this
        else this
      else this)"

definition over_block :: "game \<Rightarrow> game" where
  "over_block this =
     (if current (state this) = ''over''
      then this\<lparr>effects := effects_loop 0 (effects this)\<rparr>
      else this)"

text \<open>\<open>requestFrame(next)\<close> without \<open>resumed\<close>: the new scale is computed from the old
  rate.\<close>

definition requestFrame :: "env \<Rightarrow> game \<Rightarrow> game" where
  "requestFrame e this =
     this\<lparr>frame_count := next_handle e,
          frame_time := now e,
          frame_rate := now e - frame_time this,
          frame_scale := screen_scale this * frame_rate this * (1 / 100)\<rparr>"

text \<open>One call of \<open>play()\<close>.\<close>

definition play :: "env \<Rightarrow> game \<Rightarrow> game" where
  "play e this =
     (let this1 = over_block (play_block e (ready_block this))
      in if current (state this1) = ''stop'' then this1 else requestFrame e this1)"

section \<open>A concrete player\<close>

text \<open>
  The player \<open>create()\<close> builds on a 1000 by 600 canvas when the configured size is at
  the lower bound \<open>minSize = ((1000 + 600) / 2) / 20 = 40\<close>, with its five face images.
\<close>

definition player40 :: player where
  "player40 = Player \<lparr>sprite.x = 500, y = 0, cx = 520, cy = 20, width = 40, height = 40,
                       radius = 20, image = Some ''dizzyFaceImage''\<rparr> 40 40
                [''dizzyFaceImage'', ''happyFaceImage'', ''hungryFaceImage'',
                 ''fullFaceImage'', ''sickFaceImage'']"

section \<open>Concrete effects and a variant for the tick loops\<close>

text \<open>
  A burst of two shards with burn rate 4.5: the radius draws are 0 and 1, so the shards
  start with radius 5 and 20.
\<close>

definition two_shards :: burst where
  "two_shards = Burst 2 (Some ''foodImage1'') (Scalar 0) (Scalar 0) None None (9 / 2)
                  (\<lambda>k j. if k = 1 \<and> j = 3 then 1 else 0)"

text \<open>A burst of one shard of radius 5 and a blast wave of width 1.25, both gone after
  their first tick.\<close>

definition one_shard :: burst where
  "one_shard = Burst 1 (Some ''foodImage1'') (Scalar 0) (Scalar 0) None None (9 / 2) (\<lambda>k j. 0)"

definition one_wave :: blastWave where
  "one_wave = BlastWave (Scalar 0) (Scalar 0) (Scalar (5 / 4)) 0 (Scalar 100) 0 (\<lambda>k j. 0)"

text \<open>
  The number of visits a particle of size \<open>v\<close> survives at most when each visit takes
  \<open>b\<close> or more off and the particle is removed below 1. It is the variant of the
  termination proofs and no part of the program.
\<close>

definition life :: "real \<Rightarrow> real \<Rightarrow> nat" where
  "life b v = nat \<lfloor>(v - 1) / b\<rfloor> + 1"

section \<open>A concrete frame\<close>

text \<open>
  An instance of what a frame takes from outside: Euclidean \<open>getDistance\<close>, the circle
  test on squared distances for \<open>collideDistance\<close>, square images, and sprites that move
  by \<open>dx * scale\<close> and \<open>dy * scale\<close>. All random draws are 0 and the food lands at
  \<open>x = 300\<close>.
\<close>

definition env0 :: env where
  "env0 =
     \<lparr>getDistance = (\<lambda>ent loc. sqrt ((sprite.x ent - fst loc) * (sprite.x ent - fst loc)
                                      + (sprite.y ent - snd loc) * (sprite.y ent - snd loc))),
      collideDistance = (\<lambda>ent p. (cx p - cx ent) * (cx p - cx ent)
                                  + (cy p - cy ent) * (cy p - cy ent)
                                  < (radius p + radius ent) * (radius p + radius ent)),
      resize = (\<lambda>img w. (w, w)),
      ImageSprite = (\<lambda>img x0 y0 w h speed.
                      \<lparr>sprite.x = x0, y = y0, cx = x0 + w / 2, cy = y0 + h / 2,
                       width = w, height = h, radius = (w + h) / 4, image = Some img\<rparr>),
      obstacle_move = (\<lambda>dx dy scale ob.
                        ob\<lparr>sprite.x := sprite.x ob + dx * scale,
                           sprite.y := sprite.y ob + dy * scale,
                           cx := cx ob + dx * scale, cy := cy ob + dy * scale\<rparr>),
      player_move = (\<lambda>dx dy scale p.
                      p\<lparr>sprite.x := sprite.x p + dx * scale,
                        sprite.y := sprite.y p + dy * scale,
                        cx := cx p + dx * scale, cy := cy p + dy * scale\<rparr>),
      player_moveTo_y = (\<lambda>v p. p\<lparr>sprite.y := v, cy := v + sprite.height p / 2\<rparr>),
      location_x = 300,
      food_pick = 0,
      collision_draws = (\<lambda>i k j. 0),
      over_draws = (\<lambda>k j. 0),
      now = 16,
      next_handle = 602\<rparr>"

text \<open>
  A play-state frame on a 1000 by 600 canvas: the frame scale is 0 (the frame after a
  resume), the player has grown to 500 by 500 and one food obstacle overlaps it.
\<close>

definition food0 :: obstacle where
  "food0 = Obstacle \<lparr>sprite.x = 300, y = 330, cx = 320, cy = 350, width = 40, height = 40,
                      radius = 20, image = Some ''foodImage2''\<rparr> ''food''"

definition game0 :: game where
  "game0 =
     \<lparr>state = \<lparr>current = ''play'', prev = ''play'', score = 460, gameSpeed = 5,
               paused = False, muted = False\<rparr>,
      frame_count = 601, frame_time = 0, frame_rate = 0, frame_scale = 0,
      canvas_width = 1000, canvas_height = 600,
      screen_right = 1000, screen_bottom = 600, screen_scale = 4 / 5,
      playerSize_width = 40, obstacleSize_width = 40,
      input_left = False, input_right = False,
      effects = [],
      entities = [food0],
      player = Player \<lparr>sprite.x = 250, y = 100, cx = 500, cy = 350, width = 500, height = 500,
                        radius = 250, image = Some ''sickFaceImage''\<rparr> 40 40
                 [''dizzyFaceImage'', ''happyFaceImage'', ''hungryFaceImage'',
                  ''fullFaceImage'', ''sickFaceImage'']\<rparr>"

text \<open>The same frame with six obstacles active.\<close>

definition game6 :: game where
  "game6 = game0\<lparr>entities := [food0, food0, food0, food0, food0, food0]\<rparr>"

section \<open>Auxiliary notions for the entity loop\<close>

text \<open>
  The bursts the entity loop pushes have 1 shard (food) or 20 shards (weed);
  \<open>extends g g'\<close> says that \<open>g'\<close> has the state tag and the canvas of \<open>g\<close> and the
  effects of \<open>g\<close> followed by such bursts.
\<close>

definition pushed_by_collisions :: "burst list \<Rightarrow> bool" where
  "pushed_by_collisions bs = list_all (\<lambda>c. length (shards c) = 1 \<or> length (shards c) = 20) bs"

definition extends :: "game \<Rightarrow> game \<Rightarrow> bool" where
  "extends g g' \<longleftrightarrow>
     current (state g') = current (state g) \<and>
     canvas_width g' = canvas_width g \<and>
     (\<exists>bs. effects g' = effects g @ bs \<and> pushed_by_collisions bs)"

section \<open>Binary64 arithmetic\<close>

text \<open>
  A JavaScript number is an IEEE 754 binary64 value, and every arithmetic operator returns
  the exact result rounded to the nearest representable number, ties to the one with an
  even significand. A finite double is kept as the real it denotes (\<open>Fin\<close>), so the sign
  of zero is not represented.

  \<open>expo v\<close> is the binary exponent of a non-zero real, \<open>ulp_exp v\<close> the exponent of the
  spacing of the doubles around it: 52 below the exponent, and never below -1074, the
  spacing of the subnormal numbers.
\<close>

definition expo :: "real \<Rightarrow> int" where
  "expo v = \<lfloor>log 2 \<bar>v\<bar>\<rfloor>"

definition ulp_exp :: "real \<Rightarrow> int" where
  "ulp_exp v = max (expo v - 52) (- 1074)"

text \<open>Rounding to the nearest integer, ties to even.\<close>

definition round_half_even :: "real \<Rightarrow> int" where
  "round_half_even t =
     (let f = \<lfloor>t\<rfloor>; d = t - of_int f
      in if d < 1 / 2 then f else if 1 / 2 < d then f + 1 else if even f then f else f + 1)"

text \<open>The least magnitude that is no longer finite after rounding.\<close>

definition overflow64 :: real where
  "overflow64 = 2 ^ 1024"

text \<open>The double nearest to a real: the rounding step of every operator.\<close>

definition round64 :: "real \<Rightarrow> jsnum" where
  "round64 v =
     (if v = 0 then Fin 0
      else let q = ulp_exp v;
               w = of_int (round_half_even (v / 2 powi q)) * 2 powi q
           in if overflow64 \<le> \<bar>w\<bar> then (if 0 < v then PosInf else NegInf) else Fin w)"

text \<open>The reals that are doubles.\<close>

definition is_double :: "real \<Rightarrow> bool" where
  "is_double v \<longleftrightarrow> round64 v = Fin v"

text \<open>
  Unary minus, \<open>+\<close>, \<open>-\<close>, \<open>*\<close>, \<open>/\<close>, \<open>Math.sqrt\<close>, \<open>Math.abs\<close> and
  \<open><\<close> on numbers. The square root is correctly rounded, as IEEE 754 requires of it;
  a comparison with \<open>NaN\<close> is false.
\<close>

fun neg64 :: "jsnum \<Rightarrow> jsnum" where
  "neg64 (Fin a) = Fin (- a)"
| "neg64 PosInf = NegInf"
| "neg64 NegInf = PosInf"
| "neg64 NaN = NaN"

fun add64 :: "jsnum \<Rightarrow> jsnum \<Rightarrow> jsnum" where
  "add64 (Fin a) (Fin b) = round64 (a + b)"
| "add64 NaN b = NaN"
| "add64 a NaN = NaN"
| "add64 PosInf NegInf = NaN"
| "add64 NegInf PosInf = NaN"
| "add64 PosInf b = PosInf"
| "add64 a PosInf = PosInf"
| "add64 NegInf b = NegInf"
| "add64 a NegInf = NegInf"

definition sub64 :: "jsnum \<Rightarrow> jsnum \<Rightarrow> jsnum" where
  "sub64 a b = add64 a (neg64 b)"

fun mul64 :: "jsnum \<Rightarrow> jsnum \<Rightarrow> jsnum" where
  "mul64 (Fin a) (Fin b) = round64 (a * b)"
| "mul64 NaN b = NaN"
| "mul64 a NaN = NaN"
| "mul64 (Fin a) b = (if a = 0 then NaN else if 0 < a then b else neg64 b)"
| "mul64 a (Fin b) = (if b = 0 then NaN else if 0 < b then a else neg64 a)"
| "mul64 a b = (if a = b then PosInf else NegInf)"

fun div64 :: "jsnum \<Rightarrow> jsnum \<Rightarrow> jsnum" where
  "div64 (Fin a) (Fin b) =
     (if b \<noteq> 0 then round64 (a / b)
      else if 0 < a then PosInf else if a < 0 then NegInf else NaN)"
| "div64 NaN b = NaN"
| "div64 a NaN = NaN"
| "div64 (Fin a) b = Fin 0"
| "div64 a (Fin b) = (if 0 \<le> b then a else neg64 a)"
| "div64 a b = NaN"

fun sqrt64 :: "jsnum \<Rightarrow> jsnum" where
  "sqrt64 (Fin a) = (if a < 0 then NaN else round64 (sqrt a))"
| "sqrt64 PosInf = PosInf"
| "sqrt64 NegInf = NaN"
| "sqrt64 NaN = NaN"

fun abs64 :: "jsnum \<Rightarrow> jsnum" where
  "abs64 (Fin a) = Fin \<bar>a\<bar>"
| "abs64 PosInf = PosInf"
| "abs64 NegInf = PosInf"
| "abs64 NaN = NaN"

fun less64 :: "jsnum \<Rightarrow> jsnum \<Rightarrow> bool" where
  "less64 (Fin a) (Fin b) \<longleftrightarrow> a < b"
| "less64 NaN b \<longleftrightarrow> False"
| "less64 a NaN \<longleftrightarrow> False"
| "less64 a NegInf \<longleftrightarrow> False"
| "less64 PosInf b \<longleftrightarrow> False"
| "less64 a b \<longleftrightarrow> True"

subsection \<open>\<open>collidesWith\<close> in binary64\<close>

text \<open>
  The body of \<open>collidesWith\<close> with every operator rounding: two subtractions, two
  products, their sum, the square root, the sum of the radii and the comparison.
\<close>

definition collidesWith64 :: "'a sprite_scheme \<Rightarrow> 'b sprite_scheme \<Rightarrow> bool" where
  "collidesWith64 this entity =
     (let vx = sub64 (Fin (cx entity)) (Fin (cx this));
          vy = sub64 (Fin (cy entity)) (Fin (cy this));
          distance = sqrt64 (add64 (mul64 vx vx) (mul64 vy vy))
      in less64 distance (add64 (Fin (radius entity)) (Fin (radius this))))"




text \<open>
  Notions of the error analysis, no part of the program: the unit roundoff \<open>u64\<close>;
  \<open>approx k v V\<close>, a computed \<open>v\<close> that is within \<open>k\<close> roundings of the
  non-negative exact value \<open>V\<close>; and the magnitudes, zero or between \<open>2^-500\<close> and
  \<open>2^500\<close>, whose squares neither overflow nor lose precision to underflow.
\<close>

definition u64 :: real where
  "u64 = 1 / 2 ^ 53"



subsection \<open>\<open>Burst\<close> and \<open>BlastWave\<close> in binary64\<close>

text \<open>
  The particles with their fields as JavaScript numbers; the names carry the suffix 64 to
  keep them apart from the fields above.
\<close>

record shard64 =
  image64 :: "string option"
  x64 :: jsnum
  y64 :: jsnum
  r64 :: jsnum
  rd64 :: jsnum
  vx64 :: jsnum
  vy64 :: jsnum
  dr64 :: jsnum

record wave64 =
  x64 :: jsnum
  y64 :: jsnum
  width64 :: jsnum
  rd64 :: jsnum
  hue64 :: jsnum
  alpha64 :: jsnum

text \<open>
  The emitters. \<open>resolved k j\<close> is the number that \<open>valueOrRange\<close> (for \<open>dr\<close>:
  \<open>pickFromList\<close>) returns for field \<open>j\<close> of particle \<open>k\<close>, the fields counted in the
  order of the object literal. \<open>utils/baseUtils.js\<close> is not among the sources, so these
  numbers are a parameter; what the theorems need of them is stated there.
\<close>

definition imagePraticleEmitter64 ::
  "nat \<Rightarrow> string option \<Rightarrow> (nat \<Rightarrow> nat \<Rightarrow> jsnum) \<Rightarrow> shard64 list" where
  "imagePraticleEmitter64 n image0 resolved =
     map (\<lambda>k. \<lparr>shard64.image64 = image0,
                x64 = resolved k 0,
                y64 = resolved k 1,
                r64 = resolved k 2,
                rd64 = resolved k 3,
                vx64 = resolved k 4,
                vy64 = resolved k 5,
                dr64 = resolved k 6\<rparr>) [0..<n]"

definition radialWaveEmitter64 :: "nat \<Rightarrow> (nat \<Rightarrow> nat \<Rightarrow> jsnum) \<Rightarrow> wave64 list" where
  "radialWaveEmitter64 n resolved =
     map (\<lambda>k. \<lparr>wave64.x64 = resolved k 0,
                y64 = resolved k 1,
                width64 = resolved k 2,
                rd64 = resolved k 3,
                hue64 = resolved k 4,
                alpha64 = resolved k 5\<rparr>) [0..<n]"

record burst64 =
  active64 :: bool
  burnRate64 :: jsnum
  shards64 :: "shard64 list"

definition Burst64 ::
  "nat \<Rightarrow> string option \<Rightarrow> jsnum \<Rightarrow> (nat \<Rightarrow> nat \<Rightarrow> jsnum) \<Rightarrow> burst64" where
  "Burst64 n image0 burnRate0 resolved =
     \<lparr>burst64.active64 = True,
      burnRate64 = burnRate0,
      shards64 = imagePraticleEmitter64 n image0 resolved\<rparr>"

text \<open>The body of the \<open>for\<close> loop of \<open>Burst.tick\<close>; the literal \<open>0.1\<close> is the double
  nearest to one tenth.\<close>

definition advance_shard64 :: "jsnum \<Rightarrow> shard64 \<Rightarrow> shard64" where
  "advance_shard64 b s =
     s\<lparr>shard64.x64 := add64 (shard64.x64 s) (vx64 s),
       shard64.y64 := add64 (shard64.y64 s) (vy64 s),
       r64 := add64 (r64 s) (mul64 (round64 (1 / 10)) (dr64 s)),
       shard64.rd64 := abs64 (sub64 (shard64.rd64 s) b)\<rparr>"

text \<open>
  The \<open>for\<close> loop that both \<open>tick\<close> functions run, from index \<open>i\<close> on: the particle
  at \<open>i\<close> is advanced, spliced out if burned, and drawn; then \<open>i\<close> is incremented.
\<close>

function tick_loop ::
  "('p \<Rightarrow> 'p) \<Rightarrow> ('p \<Rightarrow> bool) \<Rightarrow> nat \<Rightarrow> 'p list \<Rightarrow> 'p list \<Rightarrow> 'p list \<times> 'p list" where
  "tick_loop advance burned i ps drawn =
     (if i < length ps then
        let p' = advance (ps ! i);
            ps' = (if burned p' then splice1 i (ps[i := p']) else ps[i := p'])
        in tick_loop advance burned (i + 1) ps' (drawn @ [p'])
      else (ps, drawn))"
  by pat_completeness auto
termination
  by (relation "measure (\<lambda>(advance, burned, i, ps, drawn). length ps - i)")
    (auto simp: length_splice1)

declare tick_loop.simps [simp del]

definition Burst64_tick :: "burst64 \<Rightarrow> burst64 \<times> shard64 list" where
  "Burst64_tick this =
     (if \<not> burst64.active64 this then (this, [])
      else if length (shards64 this) = 0 then (this\<lparr>burst64.active64 := False\<rparr>, [])
      else let (sh', drawn) = tick_loop (advance_shard64 (burst64.burnRate64 this))
                                (\<lambda>shard. less64 (shard64.rd64 shard) (Fin 1)) 0 (shards64 this) []
           in (this\<lparr>shards64 := sh'\<rparr>, drawn))"

primrec Burst64_ticks :: "nat \<Rightarrow> burst64 \<Rightarrow> burst64" where
  "Burst64_ticks 0 this = this"
| "Burst64_ticks (Suc k) this = fst (Burst64_tick (Burst64_ticks k this))"

record blastWave64 =
  active64 :: bool
  burnRate64 :: jsnum
  waves64 :: "wave64 list"

text \<open>
  The constructor: \<open>burnRate0\<close> is the number that is divided by 100, the option itself
  or, for an array, the result of \<open>randomBetween\<close>; the emitter is called without
  \<open>n\<close> and emits one wave.
\<close>

definition BlastWave64 :: "jsnum \<Rightarrow> (nat \<Rightarrow> nat \<Rightarrow> jsnum) \<Rightarrow> blastWave64" where
  "BlastWave64 burnRate0 resolved =
     \<lparr>blastWave64.active64 = True,
      burnRate64 = div64 burnRate0 (Fin 100),
      waves64 = radialWaveEmitter64 1 resolved\<rparr>"

text \<open>The body of the \<open>for\<close> loop of \<open>BlastWave.tick\<close>; the literal \<open>0.0075\<close> is
  the double nearest to it.\<close>

definition advance_wave64 :: "jsnum \<Rightarrow> wave64 \<Rightarrow> wave64" where
  "advance_wave64 b w =
     w\<lparr>wave64.rd64 := add64 (wave64.rd64 w) (mul64 b (Fin 8)),
       width64 := sub64 (width64 w) (div64 b (Fin 2)),
       hue64 := sub64 (hue64 w) (div64 b (Fin 2)),
       alpha64 := sub64 (alpha64 w) (mul64 b (round64 (75 / 10000)))\<rparr>"

definition BlastWave64_tick :: "blastWave64 \<Rightarrow> blastWave64 \<times> wave64 list" where
  "BlastWave64_tick this =
     (if \<not> blastWave64.active64 this then (this, [])
      else if length (waves64 this) = 0 then (this\<lparr>blastWave64.active64 := False\<rparr>, [])
      else let (ws', drawn) = tick_loop (advance_wave64 (blastWave64.burnRate64 this))
                                (\<lambda>wave. less64 (width64 wave) (Fin 1)) 0 (waves64 this) []
           in (this\<lparr>waves64 := ws'\<rparr>, drawn))"

primrec BlastWave64_ticks :: "nat \<Rightarrow> blastWave64 \<Rightarrow> blastWave64" where
  "BlastWave64_ticks 0 this = this"
| "BlastWave64_ticks (Suc k) this = fst (BlastWave64_tick (BlastWave64_ticks k this))"

text \<open>
  Notions of the termination proofs, no part of the program: the variants of the two
  loops, and the sizes for which one visit takes a particle strictly down: a shard radius
  from 1 up to 32, a wave width below 64 (\<open>-Infinity\<close> included).
\<close>

definition shard_life64 :: "real \<Rightarrow> shard64 \<Rightarrow> nat" where
  "shard_life64 d s = (case shard64.rd64 s of Fin v \<Rightarrow> life d v | _ \<Rightarrow> 1)"

definition wave_life64 :: "real \<Rightarrow> wave64 \<Rightarrow> nat" where
  "wave_life64 d w = (case width64 w of Fin v \<Rightarrow> life d v | _ \<Rightarrow> 1)"

definition shard_fits :: "shard64 \<Rightarrow> bool" where
  "shard_fits s = (case shard64.rd64 s of Fin v \<Rightarrow> 1 \<le> v \<and> v < 32 | _ \<Rightarrow> False)"

definition wave_fits :: "wave64 \<Rightarrow> bool" where
  "wave_fits w = less64 (width64 w) (Fin 64)"

text \<open>
  The stored burn rates that take a wave of such a width strictly down, and what one visit
  takes off at least: the rate is a double above \<open>2^-47\<close>, or \<open>Infinity\<close>.
\<close>

definition fast_enough :: "jsnum \<Rightarrow> bool" where
  "fast_enough b =
     (case b of Fin c \<Rightarrow> is_double c \<and> 2 powi (- 47) < c | PosInf \<Rightarrow> True | _ \<Rightarrow> False)"

definition wave_decrement :: "jsnum \<Rightarrow> real" where
  "wave_decrement b = (case b of Fin c \<Rightarrow> c / 2 - 2 powi (- 48) | _ \<Rightarrow> 1)"

text \<open>A width that a negative burn rate only widens: 50 or more, or \<open>Infinity\<close>.\<close>

definition widening :: "jsnum \<Rightarrow> bool" where
  "widening a = (case a of Fin v \<Rightarrow> 50 \<le> v | PosInf \<Rightarrow> True | _ \<Rightarrow> False)"

text \<open>
  Concrete emitter results: shards of radius \<open>v\<close> at the origin, at rest, with
  \<open>dr = 1\<close>; one wave of width \<open>v\<close> with the radius 25 and the alpha 1 that the
  constructor passes.
\<close>

definition shards_of_radius :: "real \<Rightarrow> nat \<Rightarrow> nat \<Rightarrow> jsnum" where
  "shards_of_radius v k j = (if j = 3 then Fin v else if j = 6 then Fin 1 else Fin 0)"

definition wave_of_width :: "real \<Rightarrow> nat \<Rightarrow> nat \<Rightarrow> jsnum" where
  "wave_of_width v k j =
     (if j = 2 then Fin v else if j = 3 then Fin 25 else if j = 5 then Fin 1 else Fin 0)"

section \<open>Binary64 rounding\<close>

lemma expo_eqI:
  assumes "v \<noteq> 0" "2 powi e \<le> \<bar>v\<bar>" "\<bar>v\<bar> < 2 powi (e + 1)"
  shows "expo v = e"
proof -
  have "2 powr real_of_int e = (2::real) powi e"
    "2 powr (real_of_int e + 1) = (2::real) powi (e + 1)"
    using powr_real_of_int' [of 2 e] powr_real_of_int' [of 2 "e + 1"]
    by (simp_all add: add.commute)
  then have "2 powr real_of_int e \<le> \<bar>v\<bar> \<and> \<bar>v\<bar> < 2 powr (real_of_int e + 1)"
    using assms by simp
  moreover have "0 < \<bar>v\<bar>"
    using assms(1) by simp
  ultimately show ?thesis
    unfolding expo_def using floor_log_eq_powr_iff [of "\<bar>v\<bar>" 2 e] by simp
qed

lemma expo_bounds:
  assumes "v \<noteq> 0"
  shows "2 powi (expo v) \<le> \<bar>v\<bar>" and "\<bar>v\<bar> < 2 powi (expo v + 1)"
proof -
  have pos: "0 < \<bar>v\<bar>"
    using assms by simp
  have "2 powr real_of_int (expo v) \<le> \<bar>v\<bar> \<and> \<bar>v\<bar> < 2 powr (real_of_int (expo v) + 1)"
    using floor_log_eq_powr_iff [of "\<bar>v\<bar>" 2 "expo v"] pos by (simp add: expo_def)
  moreover have "2 powr real_of_int (expo v) = (2::real) powi (expo v)"
    "2 powr (real_of_int (expo v) + 1) = (2::real) powi (expo v + 1)"
    using powr_real_of_int' [of 2 "expo v"] powr_real_of_int' [of 2 "expo v + 1"]
    by (simp_all add: add.commute)
  ultimately show "2 powi (expo v) \<le> \<bar>v\<bar>" and "\<bar>v\<bar> < 2 powi (expo v + 1)"
    by simp_all
qed

lemma expo_ge: "v \<noteq> 0 \<Longrightarrow> 2 powi k \<le> \<bar>v\<bar> \<Longrightarrow> k \<le> expo v"
proof (rule ccontr)
  assume v: "v \<noteq> 0" and le: "2 powi k \<le> \<bar>v\<bar>" and "\<not> k \<le> expo v"
  then have "expo v + 1 \<le> k"
    by simp
  then have "(2::real) powi (expo v + 1) \<le> 2 powi k"
    by (intro power_int_increasing) simp_all
  with expo_bounds(2) [OF v] le show False
    by simp
qed

lemma expo_less: "v \<noteq> 0 \<Longrightarrow> \<bar>v\<bar> < 2 powi k \<Longrightarrow> expo v < k"
proof (rule ccontr)
  assume v: "v \<noteq> 0" and lt: "\<bar>v\<bar> < 2 powi k" and "\<not> expo v < k"
  then have "k \<le> expo v"
    by simp
  then have "(2::real) powi k \<le> 2 powi (expo v)"
    by (intro power_int_increasing) simp_all
  with expo_bounds(1) [OF v] lt show False
    by simp
qed

lemma rhe_error: "\<bar>of_int (round_half_even t) - t\<bar> \<le> 1 / 2"
  unfolding round_half_even_def Let_def by (auto simp: abs_if; linarith)

lemma rhe_of_int [simp]: "round_half_even (of_int n) = n"
  by (simp add: round_half_even_def)

lemma rhe_ge: "of_int n \<le> t \<Longrightarrow> n \<le> round_half_even t"
proof -
  assume "of_int n \<le> t"
  then have "n \<le> \<lfloor>t\<rfloor>"
    by (simp add: le_floor_iff)
  then show ?thesis
    by (simp add: round_half_even_def Let_def)
qed

lemma rhe_le: "t \<le> of_int n \<Longrightarrow> round_half_even t \<le> n"
proof -
  assume le: "t \<le> of_int n"
  show ?thesis
  proof (cases "t = of_int n")
    case True
    then show ?thesis by simp
  next
    case False
    with le have "t < of_int n"
      by simp
    then have "\<lfloor>t\<rfloor> < n"
      by (simp add: floor_less_iff)
    then have "\<lfloor>t\<rfloor> + 1 \<le> n" "\<lfloor>t\<rfloor> \<le> n"
      by simp_all
    then show ?thesis
      by (simp add: round_half_even_def Let_def)
  qed
qed

lemma rhe_eqI: "of_int n - 1 / 2 < t \<Longrightarrow> t < of_int n + 1 / 2 \<Longrightarrow> round_half_even t = n"
proof -
  assume a: "of_int n - 1 / 2 < t" and b: "t < of_int n + 1 / 2"
  consider "of_int n \<le> t" | "t < of_int n"
    by linarith
  then show ?thesis
  proof cases
    case 1
    with b have "\<lfloor>t\<rfloor> = n"
      by (intro floor_unique) simp_all
    with b show ?thesis
      by (simp add: round_half_even_def Let_def)
  next
    case 2
    with a have "\<lfloor>t\<rfloor> = n - 1"
      by (intro floor_unique) simp_all
    with a show ?thesis
      by (simp add: round_half_even_def Let_def)
  qed
qed

lemma ulp_exp_ge: "- 1074 \<le> ulp_exp v"
  by (simp add: ulp_exp_def)

lemma pow2_pos [simp]: "0 < (2::real) powi k"
  by (simp add: power_int_def)

lemma round64_nonzero:
  assumes "v \<noteq> 0"
  shows "round64 v =
           (if overflow64 \<le> \<bar>of_int (round_half_even (v / 2 powi ulp_exp v)) * 2 powi ulp_exp v\<bar>
            then (if 0 < v then PosInf else NegInf)
            else Fin (of_int (round_half_even (v / 2 powi ulp_exp v)) * 2 powi ulp_exp v))"
  using assms by (simp add: round64_def Let_def)

lemma round64_FinD:
  assumes "round64 v = Fin w" "v \<noteq> 0"
  shows "w = of_int (round_half_even (v / 2 powi ulp_exp v)) * 2 powi ulp_exp v"
    and "\<bar>w\<bar> < overflow64"
  using assms by (auto simp: round64_nonzero split: if_splits)

lemma scaled_error:
  "\<bar>of_int (round_half_even (v / 2 powi q)) * 2 powi q - v\<bar> \<le> 2 powi q / 2"
proof -
  let ?m = "of_int (round_half_even (v / 2 powi q)) :: real"
  have "?m * 2 powi q - v = (?m - v / 2 powi q) * 2 powi q"
    by (simp add: algebra_simps)
  then have "\<bar>?m * 2 powi q - v\<bar> = \<bar>?m - v / 2 powi q\<bar> * 2 powi q"
    by (simp add: abs_mult)
  also have "\<dots> \<le> (1 / 2) * 2 powi q"
    by (intro mult_right_mono rhe_error) simp
  finally show ?thesis
    by simp
qed

lemma round64_abs_error:
  assumes "round64 v = Fin w"
  shows "\<bar>w - v\<bar> \<le> 2 powi (ulp_exp v) / 2"
proof (cases "v = 0")
  case True
  with assms show ?thesis
    by (simp add: round64_def)
next
  case False
  from round64_FinD(1) [OF assms False] scaled_error [of v "ulp_exp v"] show ?thesis
    by simp
qed

lemma round64_grid_ge:
  assumes "round64 v = Fin w" "v \<noteq> 0" "of_int n * 2 powi ulp_exp v \<le> v"
  shows "of_int n * 2 powi ulp_exp v \<le> w"
proof -
  have "of_int n \<le> v / 2 powi ulp_exp v"
    using assms(3) by (simp add: le_divide_eq)
  then have "n \<le> round_half_even (v / 2 powi ulp_exp v)"
    by (rule rhe_ge)
  then have "(of_int n :: real) \<le> of_int (round_half_even (v / 2 powi ulp_exp v))"
    by simp
  then show ?thesis
    unfolding round64_FinD(1) [OF assms(1,2)] by (intro mult_right_mono) simp_all
qed

lemma round64_grid_le:
  assumes "round64 v = Fin w" "v \<noteq> 0" "v \<le> of_int n * 2 powi ulp_exp v"
  shows "w \<le> of_int n * 2 powi ulp_exp v"
proof -
  have "v / 2 powi ulp_exp v \<le> of_int n"
    using assms(3) by (simp add: divide_le_eq)
  then have "round_half_even (v / 2 powi ulp_exp v) \<le> n"
    by (rule rhe_le)
  then have "(of_int (round_half_even (v / 2 powi ulp_exp v)) :: real) \<le> of_int n"
    by simp
  then show ?thesis
    unfolding round64_FinD(1) [OF assms(1,2)] by (intro mult_right_mono) simp_all
qed

lemma round64_sign:
  assumes "round64 v = Fin w"
  shows "0 \<le> v \<Longrightarrow> 0 \<le> w" and "v \<le> 0 \<Longrightarrow> w \<le> 0"
proof -
  show "0 \<le> w" if "0 \<le> v"
  proof (cases "v = 0")
    case True
    with assms show ?thesis by (simp add: round64_def)
  next
    case False
    from round64_grid_ge [OF assms False, of 0] that show ?thesis by simp
  qed
  show "w \<le> 0" if "v \<le> 0"
  proof (cases "v = 0")
    case True
    with assms show ?thesis by (simp add: round64_def)
  next
    case False
    from round64_grid_le [OF assms False, of 0] that show ?thesis by simp
  qed
qed

lemma round64_finite:
  assumes "\<bar>v\<bar> \<le> 2 ^ 1023"
  shows "\<exists>w. round64 v = Fin w"
proof (cases "v = 0")
  case True
  then show ?thesis by (simp add: round64_def)
next
  case False
  let ?q = "ulp_exp v"
  let ?w = "of_int (round_half_even (v / 2 powi ?q)) * 2 powi ?q :: real"
  have "\<bar>v\<bar> < 2 powi 1024"
    using assms by (simp add: power_int_def) 
  then have "expo v < 1024"
    by (rule expo_less [OF False])
  then have "?q \<le> 971"
    by (simp add: ulp_exp_def)
  then have "(2::real) powi ?q \<le> 2 powi 971"
    by (intro power_int_increasing) simp_all
  then have "(2::real) powi ?q / 2 \<le> 2 ^ 970"
    by simp
  moreover have "\<bar>?w - v\<bar> \<le> 2 powi ?q / 2"
    by (rule scaled_error)
  ultimately have "\<bar>?w\<bar> \<le> 2 ^ 1023 + 2 ^ 970"
    using assms by linarith
  also have "\<dots> < overflow64"
    by (simp add: overflow64_def)
  finally show ?thesis
    using False by (simp add: round64_nonzero)
qed

lemma round64_rel_error:
  assumes "2 powi (- 1022) \<le> \<bar>v\<bar>" "\<bar>v\<bar> \<le> 2 ^ 1023"
  shows "\<exists>w. round64 v = Fin w \<and> \<bar>w - v\<bar> \<le> \<bar>v\<bar> / 2 ^ 53"
proof -
  from round64_finite [OF assms(2)] obtain w where w: "round64 v = Fin w"
    by blast
  have nz: "v \<noteq> 0"
    using assms(1) pow2_pos [of "- 1022"] by auto
  have "- 1022 \<le> expo v"
    using assms(1) by (intro expo_ge [OF nz])
  then have q: "ulp_exp v = expo v - 52"
    by (simp add: ulp_exp_def)
  have "(2::real) powi (expo v - 52) = 2 powi (expo v) / 2 ^ 52"
    by (simp add: power_int_diff)
  then have "(2::real) powi (ulp_exp v) / 2 = 2 powi (expo v) / 2 ^ 53"
    by (simp add: q)
  also have "\<dots> \<le> \<bar>v\<bar> / 2 ^ 53"
    using expo_bounds(1) [OF nz] by (simp add: divide_right_mono)
  finally have "\<bar>w - v\<bar> \<le> \<bar>v\<bar> / 2 ^ 53"
    using round64_abs_error [OF w] by linarith
  with w show ?thesis
    by blast
qed

lemma round64_eqI:
  assumes "v \<noteq> 0" "2 powi e \<le> \<bar>v\<bar>" "\<bar>v\<bar> < 2 powi (e + 1)"
    and "q = max (e - 52) (- 1074)"
    and "round_half_even (v / 2 powi q) = m"
    and "\<bar>of_int m * 2 powi q\<bar> < overflow64"
  shows "round64 v = Fin (of_int m * 2 powi q)"
proof -
  have "expo v = e"
    using assms(1-3) by (rule expo_eqI)
  then have "ulp_exp v = q"
    by (simp add: ulp_exp_def assms(4))
  then show ?thesis
    using assms(1,5,6) by (simp add: round64_nonzero)
qed

lemma round64_exact:
  assumes "v = of_int m * 2 powi q" "\<bar>m\<bar> < 2 ^ 53" "- 1074 \<le> q" "q \<le> 971"
  shows "round64 v = Fin v"
proof (cases "v = 0")
  case True
  then show ?thesis by (simp add: round64_def)
next
  case False
  have "\<bar>v\<bar> = of_int \<bar>m\<bar> * 2 powi q"
    by (simp add: assms(1) abs_mult)
  also have "\<dots> < 2 ^ 53 * 2 powi q"
    using assms(2) by (intro mult_strict_right_mono) (simp_all flip: of_int_less_iff [where ?'a = real])
  also have "\<dots> = 2 powi (53 + q)"
    by (simp add: power_int_add)
  finally have lt: "\<bar>v\<bar> < 2 powi (53 + q)" .
  then have "expo v < 53 + q"
    by (rule expo_less [OF False])
  then have uq: "ulp_exp v \<le> q"
    using assms(3) by (simp add: ulp_exp_def)
  define u where "u = ulp_exp v"
  define k where "k = nat (q - u)"
  have qk: "q = u + int k"
    using uq by (simp add: k_def u_def)
  have "v = of_int m * 2 powi (u + int k)"
    using assms(1) qk by simp
  then have vk: "v = of_int (m * 2 ^ k) * 2 powi u"
    by (simp add: power_int_add)
  then have "v / 2 powi u = of_int (m * 2 ^ k)"
    by simp
  then have "round_half_even (v / 2 powi u) = m * 2 ^ k"
    by (simp only: rhe_of_int)
  then have "of_int (round_half_even (v / 2 powi u)) * 2 powi u = v"
    using vk by simp
  then have w: "of_int (round_half_even (v / 2 powi ulp_exp v)) * 2 powi ulp_exp v = v"
    by (simp add: u_def)
  have "(2::real) powi (53 + q) \<le> 2 powi 1024"
    using assms(4) by (intro power_int_increasing) simp_all
  with lt have "\<bar>v\<bar> < overflow64"
    by (simp add: overflow64_def)
  then show ?thesis
    using False by (simp add: round64_nonzero w)
qed

lemma round64_rel_error_Fin:
  assumes "round64 v = Fin w" "2 powi (- 1022) \<le> \<bar>v\<bar>"
  shows "\<bar>w - v\<bar> \<le> \<bar>v\<bar> / 2 ^ 53"
proof -
  have nz: "v \<noteq> 0"
    using assms(2) pow2_pos [of "- 1022"] by auto
  have "- 1022 \<le> expo v"
    using assms(2) by (intro expo_ge [OF nz])
  then have q: "ulp_exp v = expo v - 52"
    by (simp add: ulp_exp_def)
  have "(2::real) powi (expo v - 52) = 2 powi (expo v) / 2 ^ 52"
    by (simp add: power_int_diff)
  then have "(2::real) powi (ulp_exp v) / 2 = 2 powi (expo v) / 2 ^ 53"
    by (simp add: q)
  also have "\<dots> \<le> \<bar>v\<bar> / 2 ^ 53"
    using expo_bounds(1) [OF nz] by (simp add: divide_right_mono)
  finally show ?thesis
    using round64_abs_error [OF assms(1)] by linarith
qed

lemma round64_not_NaN [simp]: "round64 v \<noteq> NaN"
  by (simp add: round64_def Let_def)

lemma round64_PosInf: "round64 v = PosInf \<Longrightarrow> 2 ^ 1023 < v"
proof (rule ccontr)
  assume inf: "round64 v = PosInf" and "\<not> 2 ^ 1023 < v"
  then have le: "v \<le> 2 ^ 1023"
    by simp
  have "0 < v"
    using inf by (auto simp: round64_def Let_def split: if_splits)
  with le have "\<bar>v\<bar> \<le> 2 ^ 1023"
    by simp
  from round64_finite [OF this] inf show False
    by auto
qed

lemma round64_NegInf: "round64 v = NegInf \<Longrightarrow> v < - (2 ^ 1023)"
proof (rule ccontr)
  assume inf: "round64 v = NegInf" and "\<not> v < - (2 ^ 1023)"
  then have le: "- (2 ^ 1023) \<le> v"
    by simp
  have "v < 0"
    using inf by (auto simp: round64_def Let_def split: if_splits)
  with le have "\<bar>v\<bar> \<le> 2 ^ 1023"
    by simp
  from round64_finite [OF this] inf show False
    by auto
qed

lemma scaled_lt:
  assumes "v \<noteq> 0"
  shows "\<bar>v / 2 powi ulp_exp v\<bar> < 2 ^ 53"
proof -
  have "expo v - 52 \<le> ulp_exp v"
    by (simp add: ulp_exp_def)
  then have "(2::real) powi (expo v - 52) \<le> 2 powi ulp_exp v"
    by (intro power_int_increasing) simp_all
  moreover have "(2::real) powi (expo v + 1) = 2 ^ 53 * 2 powi (expo v - 52)"
    by (simp add: power_int_add power_int_diff)
  ultimately have "\<bar>v\<bar> < 2 ^ 53 * 2 powi ulp_exp v"
    using expo_bounds(2) [OF assms] by (smt (verit) mult_left_mono zero_le_numeral zero_le_power)
  then show ?thesis
    by (simp add: abs_divide divide_less_eq)
qed

lemma is_double_mantissa:
  assumes "is_double v" "v \<noteq> 0"
  obtains m where "v = of_int m * 2 powi ulp_exp v" "\<bar>m\<bar> < 2 ^ 53"
proof -
  define m where "m = round_half_even (v / 2 powi ulp_exp v)"
  have v: "v = of_int m * 2 powi ulp_exp v"
    using round64_FinD(1) [OF assms(1) [unfolded is_double_def] assms(2)] by (simp add: m_def)
  then have "v / 2 powi ulp_exp v = of_int m"
    by (metis nonzero_eq_divide_eq pow2_pos less_irrefl)
  with scaled_lt [OF assms(2)] have "\<bar>of_int m :: real\<bar> < 2 ^ 53"
    by simp
  then have "\<bar>m\<bar> < 2 ^ 53"
    by (metis (mono_tags) of_int_abs of_int_less_iff of_int_numeral of_int_power)
  with v show ?thesis
    by (rule that)
qed

lemma double_half:
  assumes "is_double b" "2 powi (- 1021) \<le> \<bar>b\<bar>"
  shows "round64 (b / 2) = Fin (b / 2)"
proof -
  have nz: "b \<noteq> 0"
    using assms(2) pow2_pos [of "- 1021"] by auto
  from is_double_mantissa [OF assms(1) nz] obtain m where
    m: "b = of_int m * 2 powi ulp_exp b" "\<bar>m\<bar> < 2 ^ 53"
    by blast
  have "- 1021 \<le> expo b"
    using assms(2) by (intro expo_ge [OF nz])
  then have lo: "- 1073 \<le> ulp_exp b"
    by (simp add: ulp_exp_def)
  have "\<bar>b\<bar> < overflow64"
    using round64_FinD(2) [OF assms(1) [unfolded is_double_def] nz] .
  then have "\<bar>b\<bar> < 2 powi 1024"
    by (simp add: overflow64_def)
  then have "expo b < 1024"
    by (rule expo_less [OF nz])
  then have hi: "ulp_exp b \<le> 971"
    by (simp add: ulp_exp_def)
  have "b / 2 = of_int m * 2 powi (ulp_exp b - 1)"
    using m(1) by (simp add: power_int_diff)
  then show ?thesis
    using m(2) lo hi by (intro round64_exact [where m = m and q = "ulp_exp b - 1"]) simp_all
qed

lemma double_below_2:
  assumes "is_double b" "b < 2"
  shows "b \<le> 2 - 1 / 2 ^ 52"
proof (cases "1 \<le> b")
  case False
  then show ?thesis by simp
next
  case True
  then have nz: "b \<noteq> 0"
    by simp
  have "expo b = 0"
    using True assms(2) by (intro expo_eqI) simp_all
  then have q: "ulp_exp b = - 52"
    by (simp add: ulp_exp_def)
  from is_double_mantissa [OF assms(1) nz] obtain m where
    m: "b = of_int m * 2 powi ulp_exp b" "\<bar>m\<bar> < 2 ^ 53"
    by blast
  then have b: "b = of_int m / 2 ^ 52"
    by (simp add: q power_int_minus_divide)
  with assms(2) have "of_int m < (2::real) ^ 53"
    by (simp add: divide_less_eq)
  then have "m < 2 ^ 53"
    by (metis (mono_tags) of_int_less_iff of_int_numeral of_int_power)
  then have "m \<le> 2 ^ 53 - 1"
    by simp
  then have "(of_int m :: real) \<le> 2 ^ 53 - 1"
    by (metis (mono_tags) of_int_le_iff of_int_numeral of_int_power of_int_diff of_int_1)
  then show ?thesis
    by (simp add: b field_simps)
qed

lemma round64_idem:
  assumes "round64 v = Fin w"
  shows "is_double w"
proof (cases "w = 0")
  case True
  then show ?thesis by (simp add: is_double_def round64_def)
next
  case False
  then have nz: "v \<noteq> 0"
    using assms by (auto simp: round64_def)
  define q where "q = ulp_exp v"
  define m where "m = round_half_even (v / 2 powi q)"
  have w: "w = of_int m * 2 powi q" and fin: "\<bar>w\<bar> < overflow64"
    using round64_FinD [OF assms nz] by (simp_all add: m_def q_def)
  have sc: "\<bar>v / 2 powi q\<bar> < 2 ^ 53"
    unfolding q_def by (rule scaled_lt [OF nz])
  then have "v / 2 powi q \<le> 2 ^ 53" "- (2 ^ 53) \<le> v / 2 powi q"
    by linarith+
  then have up: "v / 2 powi q \<le> of_int (2 ^ 53)" and dn: "of_int (- (2 ^ 53)) \<le> v / 2 powi q"
    by simp_all
  have "m \<le> 2 ^ 53"
    unfolding m_def using up by (rule rhe_le)
  moreover have "- (2 ^ 53) \<le> m"
    unfolding m_def using dn by (rule rhe_ge)
  ultimately have "m \<le> 2 ^ 53" "- (2 ^ 53) \<le> m"
    by simp_all
  then have mle: "\<bar>m\<bar> \<le> 2 ^ 53"
    by simp
  have qlo: "- 1074 \<le> q"
    by (simp add: q_def ulp_exp_ge)
  have wabs: "\<bar>w\<bar> = of_int \<bar>m\<bar> * 2 powi q"
    by (simp add: w abs_mult)
  show ?thesis
  proof (cases "\<bar>m\<bar> = 2 ^ 53")
    case True
    then have wq: "\<bar>w\<bar> = 2 powi (q + 53)"
      by (simp add: wabs power_int_add)
    have "q + 53 < 1024"
    proof (rule ccontr)
      assume "\<not> q + 53 < 1024"
      then have "(2::real) powi 1024 \<le> 2 powi (q + 53)"
        by (intro power_int_increasing) simp_all
      with fin wq show False
        by (simp add: overflow64_def)
    qed
    then have qhi: "q + 1 \<le> 971"
      by simp
    have "m = 2 ^ 53 \<or> m = - (2 ^ 53)"
      using True by (simp add: abs_if split: if_splits)
    then have "w = of_int (m div 2) * 2 powi (q + 1)"
      by (auto simp: w power_int_add)
    moreover have "\<bar>m div 2\<bar> < 2 ^ 53"
      using \<open>m = 2 ^ 53 \<or> m = - (2 ^ 53)\<close> by auto
    ultimately show ?thesis
      unfolding is_double_def using qlo qhi
      by (intro round64_exact [where m = "m div 2" and q = "q + 1"]) simp_all
  next
    case False
    with mle have mlt: "\<bar>m\<bar> < 2 ^ 53"
      by simp
    have "q \<le> 971"
    proof (rule ccontr)
      assume "\<not> q \<le> 971"
      then have q972: "972 \<le> q"
        by simp
      then have "expo v - 52 = q"
        by (simp add: q_def ulp_exp_def max_def split: if_splits)
      then have "expo v = q + 52"
        by simp
      then have "2 powi (q + 52) \<le> \<bar>v\<bar>"
        using expo_bounds(1) [OF nz] by simp
      then have "of_int (2 ^ 52) * 2 powi q \<le> \<bar>v\<bar>"
        by (simp add: power_int_add mult.commute)
      then have "of_int (2 ^ 52) \<le> \<bar>v\<bar> / 2 powi q"
        by (simp add: le_divide_eq)
      then have "of_int (2 ^ 52) \<le> \<bar>v / 2 powi q\<bar>"
        by (simp add: abs_divide)
      then have "2 ^ 52 \<le> \<bar>m\<bar>"
        unfolding m_def using rhe_ge [of "2 ^ 52" "v / 2 powi q"] rhe_le [of "v / 2 powi q" "- (2 ^ 52)"]
        by (auto simp: abs_if split: if_splits)
      then have "(2::real) ^ 52 \<le> of_int \<bar>m\<bar>"
        by (metis (mono_tags) of_int_le_iff of_int_numeral of_int_power)
      then have "2 ^ 52 * 2 powi q \<le> \<bar>w\<bar>"
        unfolding wabs by (intro mult_right_mono) simp_all
      moreover have "(2::real) powi 1024 \<le> 2 powi (52 + q)"
        using q972 by (intro power_int_increasing) simp_all
      ultimately show False
        using fin by (simp add: overflow64_def power_int_add)
    qed
    then show ?thesis
      unfolding is_double_def using w mlt qlo
      by (intro round64_exact [where m = m and q = q]) simp_all
  qed
qed

lemma round64_error_below:
  assumes "round64 v = Fin w" "\<bar>v\<bar> < 2 powi k" "- 1021 \<le> k"
  shows "\<bar>w - v\<bar> \<le> 2 powi (k - 54)"
proof (cases "v = 0")
  case True
  with assms(1) show ?thesis
    by (simp add: round64_def)
next
  case False
  then have "expo v < k"
    using assms(2) by (rule expo_less)
  with assms(3) have "ulp_exp v \<le> k - 53"
    by (simp add: ulp_exp_def)
  then have "(2::real) powi ulp_exp v \<le> 2 powi (k - 53)"
    by (intro power_int_increasing) simp_all
  moreover have "(2::real) powi (k - 53) = 2 * 2 powi (k - 54)"
    using power_int_add [of "2::real" 1 "k - 54"] by simp
  ultimately show ?thesis
    using round64_abs_error [OF assms(1)] by linarith
qed

section \<open>Collision test\<close>


subsection \<open>Error analysis of the collision test\<close>

lemma u64_bounds: "0 < u64" "u64 < 1" "0 < 1 - u64" "0 \<le> 1 - u64" "0 \<le> 1 + u64"
  by (simp_all add: u64_def)

lemma pow_lo_nonneg [simp]: "0 \<le> (1 - u64) ^ k"
  by (rule zero_le_power) (rule u64_bounds(4))

lemma pow_hi_nonneg [simp]: "0 \<le> (1 + u64) ^ k"
  by (rule zero_le_power) (rule u64_bounds(5))















subsection \<open>Circles on which rounding decides\<close>

lemma rhe_half: "round_half_even (of_int n + 1 / 2) = (if even n then n else n + 1)"
proof -
  have "\<lfloor>of_int n + (1::real) / 2\<rfloor> = n"
    by (intro floor_unique) simp_all
  then show ?thesis
    by (simp add: round_half_even_def Let_def)
qed


















subsection \<open>Symmetry\<close>

text \<open>
  Negation commutes with rounding, so the binary64 test gives the same answer whichever of
  the two sprites is the receiver.
\<close>

lemma rhe_minus: "round_half_even (- t) = - round_half_even t"
proof (cases "t = of_int \<lfloor>t\<rfloor>")
  case True
  then obtain n where "t = of_int n"
    by blast
  then have "- t = of_int (- n)"
    by simp
  then have "round_half_even (- t) = - n"
    by (simp only: rhe_of_int)
  with \<open>t = of_int n\<close> show ?thesis
    by simp
next
  case False
  define f where "f = \<lfloor>t\<rfloor>"
  define d where "d = t - of_int f"
  have d: "0 < d" "d < 1"
    using False by (simp_all add: d_def f_def) linarith+
  have fl: "\<lfloor>- t\<rfloor> = - f - 1"
    by (rule floor_unique) (use d in \<open>simp_all add: d_def\<close>)
  have d': "- t - of_int (- f - 1) = 1 - d"
    by (simp add: d_def)
  have A: "round_half_even t =
      (if d < 1 / 2 then f else if 1 / 2 < d then f + 1 else if even f then f else f + 1)"
    by (simp only: round_half_even_def Let_def f_def d_def)
  have B: "round_half_even (- t) =
      (if 1 - d < 1 / 2 then - f - 1 else if 1 / 2 < 1 - d then - f - 1 + 1
       else if even (- f - 1) then - f - 1 else - f - 1 + 1)"
    by (simp only: round_half_even_def Let_def fl d')
  show ?thesis
    unfolding A B using d by auto
qed

lemma round64_minus: "round64 (- v) = neg64 (round64 v)"
proof (cases "v = 0")
  case True
  then show ?thesis
    by (simp add: round64_def)
next
  case False
  have q: "ulp_exp (- v) = ulp_exp v"
    by (simp add: ulp_exp_def expo_def)
  have "of_int (round_half_even (- v / 2 powi ulp_exp v)) * 2 powi ulp_exp v
          = - (of_int (round_half_even (v / 2 powi ulp_exp v)) * 2 powi ulp_exp v :: real)"
    using rhe_minus [of "v / 2 powi ulp_exp v"] by simp
  then show ?thesis
    using False by (auto simp: round64_nonzero q)
qed

lemma sub64_swap: "sub64 (Fin a) (Fin b) = neg64 (sub64 (Fin b) (Fin a))"
  using round64_minus [of "b - a"] by (simp add: sub64_def)

lemma mul64_neg_neg: "mul64 (neg64 a) (neg64 a) = mul64 a a"
  by (cases a) simp_all

lemma collidesWith64_symmetric: "collidesWith64 a b = collidesWith64 b a"
proof -
  have "sub64 (Fin (cx a)) (Fin (cx b)) = neg64 (sub64 (Fin (cx b)) (Fin (cx a)))"
    and "sub64 (Fin (cy a)) (Fin (cy b)) = neg64 (sub64 (Fin (cy b)) (Fin (cy a)))"
    by (rule sub64_swap)+
  then show ?thesis
    by (simp add: collidesWith64_def Let_def mul64_neg_neg add.commute)
qed

text \<open>
  Claim C10. \<open>collidesWith\<close> is symmetric: \<open>a.collidesWith(b)\<close> and
  \<open>b.collidesWith(a)\<close> return the same value.
\<close>

theorem collidesWith_symmetric: "collidesWith a b = collidesWith b a"
proof -
  have "(cx b - cx a) * (cx b - cx a) = (cx a - cx b) * (cx a - cx b)"
    by (simp add: algebra_simps)
  moreover have "(cy b - cy a) * (cy b - cy a) = (cy a - cy b) * (cy a - cy b)"
    by (simp add: algebra_simps)
  ultimately show ?thesis
    by (simp add: collidesWith_def Let_def add.commute)
qed

section \<open>Player size, radius and sprite\<close>

lemma update_size [simp]:
  "sprite.width (update cw p) = sprite.width p"
  "sprite.height (update cw p) = sprite.height p"
  "radius (update cw p) = radius p"
  "originalWidth (update cw p) = originalWidth p"
  "originalHeight (update cw p) = originalHeight p"
  by (simp_all add: update_def)

lemma update_v2_size [simp]:
  "sprite.width (update_v2 cw p) = sprite.width p"
  "sprite.height (update_v2 cw p) = sprite.height p"
  "radius (update_v2 cw p) = radius p"
  "originalWidth (update_v2 cw p) = originalWidth p"
  "originalHeight (update_v2 cw p) = originalHeight p"
  by (simp_all add: update_v2_def)

lemma eat_original [simp]:
  "originalWidth (eat cw p) = originalWidth p"
  "originalHeight (eat cw p) = originalHeight p"
  by (simp_all add: eat_def Let_def)

lemma eat_v2_original [simp]:
  "originalWidth (eat_v2 cw p) = originalWidth p"
  "originalHeight (eat_v2 cw p) = originalHeight p"
  by (simp_all add: eat_v2_def Let_def)

lemma eats_original [simp]:
  "originalWidth (eats k cw p) = originalWidth p"
  "originalHeight (eats k cw p) = originalHeight p"
  by (induction k) simp_all

lemma eats_v2_original [simp]:
  "originalWidth (eats_v2 k cw p) = originalWidth p"
  "originalHeight (eats_v2 k cw p) = originalHeight p"
  by (induction k) simp_all

lemma Player_original [simp]:
  "originalWidth (Player base w h imgs) = w"
  "originalHeight (Player base w h imgs) = h"
  by (simp_all add: Player_def sprite.extend_def)

lemma eats_size:
  "sprite.width (eats k cw p) = sprite.width p + real k"
  "sprite.height (eats k cw p) = sprite.height p + real k"
  by (induction k) (simp_all add: eat_def Let_def)

text \<open>
  Claim C4. For every player constructed with width \<open>w0\<close> and height \<open>h0\<close>, after any
  number of \<open>eat()\<close> calls one call of \<open>blaze()\<close> restores the width to exactly
  \<open>w0\<close> and the height to exactly \<open>h0\<close>. This holds for both versions of
  \<open>player.js\<close> that have \<open>blaze\<close>.
\<close>

theorem eat_then_blaze_restores_size:
  "sprite.width (blaze cw (eats k cw (Player base w0 h0 imgs))) = w0 \<and>
   sprite.height (blaze cw (eats k cw (Player base w0 h0 imgs))) = h0 \<and>
   sprite.width (blaze_v2 cw (eats_v2 k cw (Player base w0 h0 imgs))) = w0 \<and>
   sprite.height (blaze_v2 cw (eats_v2 k cw (Player base w0 h0 imgs))) = h0"
  by (simp add: blaze_def blaze_v2_def Let_def)

lemma eat_radius:
  "radius (eat cw p) = (sprite.width (eat cw p) + sprite.height (eat cw p)) / 4"
  by (simp add: eat_def Let_def)

lemma blaze_radius: "radius (blaze cw p) = radius p"
  by (simp add: blaze_def Let_def)

lemma eat_v3_radius: "radius (eat_v3 p) = radius p"
  by (simp add: eat_v3_def Let_def)

lemma eat_v2_radius: "radius (eat_v2 cw p) = radius p"
  by (simp add: eat_v2_def Let_def)

text \<open>
  Claim C5 says that after \<open>eat\<close> and after \<open>blaze\<close> the stored radius equals
  \<open>(width + height) / 4\<close> of the current size. \<open>eat\<close> recomputes the radius
  (\<open>eat_radius\<close>); \<open>blaze\<close> resets width and height and leaves the radius as it was
  (\<open>blaze_radius\<close>). On the concrete player, \<open>eat()\<close> then \<open>blaze()\<close> ends with
  size 40 by 40 and radius 20.5 instead of 20.
\<close>

theorem blaze_leaves_radius_stale:
  "sprite.width (blaze 1000 (eat 1000 player40)) = 40 \<and>
   sprite.height (blaze 1000 (eat 1000 player40)) = 40 \<and>
   radius (blaze 1000 (eat 1000 player40)) = 41 / 2 \<and>
   radius (blaze 1000 (eat 1000 player40))
     \<noteq> (sprite.width (blaze 1000 (eat 1000 player40))
        + sprite.height (blaze 1000 (eat 1000 player40))) / 4"
  by (simp add: blaze_def eat_def Let_def player40_def Player_def sprite.extend_def)

text \<open>
  Claim C6 says that for every width \<open>\<ge> 0\<close> and non-empty image list the sprite index
  lies within \<open>0 .. images.length - 1\<close>. The version of \<open>update\<close> that clamps with
  \<open>bounded\<close> does so on a canvas of positive width (\<open>sprite_index_in_range\<close> below).
  The version that only takes \<open>Math.min\<close> with the upper bound does not: on a canvas of
  width 1000 a player of width 40 with five images gets
  \<open>Math.round(0.4) - 1 = -1\<close>, and the image becomes \<open>undefined\<close>.
\<close>

theorem update_v2_index_below_range:
  "sprite_index_v2 1000 player40 = Fin (- 1) \<and>
   \<not> valid_index (sprite_index_v2 1000 player40) (length (images player40)) \<and>
   sprite.image (update_v2 1000 player40) = None \<and>
   sprite.image (blaze_v2 1000 (eat_v2 1000 player40)) = None"
  by (simp add: sprite_index_v2_def update_v2_def blaze_v2_def eat_v2_def Let_def player40_def
      Player_def sprite.extend_def js_div_def js_index_def valid_index_def)

lemma sprite_index_in_range:
  assumes "0 < cw" and "0 \<le> sprite.width p" and "images p \<noteq> []"
  shows "valid_index (sprite_index cw p) (length (images p))"
proof -
  define v where "v = of_int \<lfloor>sprite.width p / (cw / 2) * real (length (images p)) + 1 / 2\<rfloor> - (1::real)"
  define hi where "hi = real (length (images p)) - 1"
  have len: "1 \<le> length (images p)"
    using assms(3) by (cases "images p") simp_all
  then have hi0: "0 \<le> hi"
    by (simp add: hi_def)
  have "hi = of_int (int (length (images p)) - 1)"
    by (simp add: hi_def)
  then have hi_int: "hi = of_int \<lfloor>hi\<rfloor>"
    by (metis floor_of_int)
  have "v = of_int (\<lfloor>sprite.width p / (cw / 2) * real (length (images p)) + 1 / 2\<rfloor> - 1)"
    by (simp add: v_def)
  then have v_int: "v = of_int \<lfloor>v\<rfloor>"
    by (metis floor_of_int)
  have idx: "sprite_index cw p = Fin (if v < 0 then 0 else if hi < v then hi else v)"
    using assms(1) by (simp add: sprite_index_def Let_def js_div_def v_def hi_def)
  have "valid_index (Fin (if v < 0 then 0 else if hi < v then hi else v)) (length (images p))"
    unfolding valid_index_def jsnum.case hi_def [symmetric]
    using hi0 hi_int v_int by auto
  then show ?thesis
    by (simp only: idx)
qed

lemma update_image_defined:
  assumes "0 < cw" and "0 \<le> sprite.width p" and "images p \<noteq> []"
  shows "sprite.image (update cw p) \<noteq> None"
  using sprite_index_in_range [OF assms]
  by (auto simp: update_def js_index_def valid_index_def split: jsnum.splits)

section \<open>Effect lifecycle\<close>

lemma burst_tick_inactive: "\<not> burst.active b \<Longrightarrow> Burst_tick b = (b, [])"
  by (simp add: Burst_tick_def)

lemma burst_tick_empty:
  "burst.active b \<Longrightarrow> shards b = [] \<Longrightarrow> Burst_tick b = (b\<lparr>burst.active := False\<rparr>, [])"
  by (simp add: Burst_tick_def)

lemma burst_tick_nonempty:
  "burst.active b \<Longrightarrow> shards b \<noteq> [] \<Longrightarrow>
   fst (Burst_tick b) = b\<lparr>shards := fst (burst_loop (burst.burnRate b) 0 (shards b) [])\<rparr>"
  by (simp add: Burst_tick_def split_beta)

lemma burst_tick_active_iff:
  "burst.active (fst (Burst_tick b)) \<longleftrightarrow> burst.active b \<and> shards b \<noteq> []"
  by (cases "burst.active b"; cases "shards b = []")
     (simp_all add: burst_tick_inactive burst_tick_empty burst_tick_nonempty)

lemma burst_ticks_inactive_iff:
  "burst.active b \<Longrightarrow>
   \<not> burst.active (Burst_ticks n b) \<longleftrightarrow> (\<exists>k<n. shards (Burst_ticks k b) = [])"
proof (induction n)
  case 0
  then show ?case by simp
next
  case (Suc n)
  show ?case
  proof (cases "burst.active (Burst_ticks n b)")
    case True
    with Suc have none: "\<forall>k<n. shards (Burst_ticks k b) \<noteq> []"
      by auto
    have "(\<exists>k<Suc n. shards (Burst_ticks k b) = []) \<longleftrightarrow> shards (Burst_ticks n b) = []"
      using none by (auto simp: less_Suc_eq)
    with True show ?thesis
      by (simp add: burst_tick_active_iff)
  next
    case False
    with Suc obtain k where "k < n" "shards (Burst_ticks k b) = []"
      by auto
    then have "\<exists>k<Suc n. shards (Burst_ticks k b) = []"
      by (auto simp: less_Suc_eq)
    with False show ?thesis
      by (simp add: burst_tick_active_iff)
  qed
qed

lemma wave_tick_inactive: "\<not> blastWave.active w \<Longrightarrow> BlastWave_tick w = (w, [])"
  by (simp add: BlastWave_tick_def)

lemma wave_tick_empty:
  "blastWave.active w \<Longrightarrow> waves w = [] \<Longrightarrow> BlastWave_tick w = (w\<lparr>blastWave.active := False\<rparr>, [])"
  by (simp add: BlastWave_tick_def)

lemma wave_tick_nonempty:
  "blastWave.active w \<Longrightarrow> waves w \<noteq> [] \<Longrightarrow>
   fst (BlastWave_tick w) = w\<lparr>waves := fst (wave_loop (blastWave.burnRate w) 0 (waves w) [])\<rparr>"
  by (simp add: BlastWave_tick_def split_beta)

lemma wave_tick_active_iff:
  "blastWave.active (fst (BlastWave_tick w)) \<longleftrightarrow> blastWave.active w \<and> waves w \<noteq> []"
  by (cases "blastWave.active w"; cases "waves w = []")
     (simp_all add: wave_tick_inactive wave_tick_empty wave_tick_nonempty)

lemma wave_ticks_inactive_iff:
  "blastWave.active w \<Longrightarrow>
   \<not> blastWave.active (BlastWave_ticks n w) \<longleftrightarrow> (\<exists>k<n. waves (BlastWave_ticks k w) = [])"
proof (induction n)
  case 0
  then show ?case by simp
next
  case (Suc n)
  show ?case
  proof (cases "blastWave.active (BlastWave_ticks n w)")
    case True
    with Suc have none: "\<forall>k<n. waves (BlastWave_ticks k w) \<noteq> []"
      by auto
    have "(\<exists>k<Suc n. waves (BlastWave_ticks k w) = []) \<longleftrightarrow> waves (BlastWave_ticks n w) = []"
      using none by (auto simp: less_Suc_eq)
    with True show ?thesis
      by (simp add: wave_tick_active_iff)
  next
    case False
    with Suc obtain k where "k < n" "waves (BlastWave_ticks k w) = []"
      by auto
    then have "\<exists>k<Suc n. waves (BlastWave_ticks k w) = []"
      by (auto simp: less_Suc_eq)
    with False show ?thesis
      by (simp add: wave_tick_active_iff)
  qed
qed

text \<open>
  Claim C3. For Burst and BlastWave alike, a tick on an inactive effect is a no-op that
  renders nothing, and an effect that starts active is inactive after \<open>n\<close> ticks exactly
  when one of those \<open>n\<close> ticks found the particle collection empty. So \<open>active\<close>
  goes from true to false at the first tick that finds the collection empty, and at no
  other tick; it never returns to true.
\<close>

theorem effect_goes_inactive_once:
  "(\<not> burst.active b1 \<longrightarrow> Burst_tick b1 = (b1, [])) \<and>
   (burst.active b2 \<longrightarrow>
      (\<not> burst.active (Burst_ticks n b2) \<longleftrightarrow> (\<exists>k<n. shards (Burst_ticks k b2) = []))) \<and>
   (\<not> blastWave.active w1 \<longrightarrow> BlastWave_tick w1 = (w1, [])) \<and>
   (blastWave.active w2 \<longrightarrow>
      (\<not> blastWave.active (BlastWave_ticks n w2) \<longleftrightarrow> (\<exists>k<n. waves (BlastWave_ticks k w2) = [])))"
  using burst_tick_inactive burst_ticks_inactive_iff wave_tick_inactive wave_ticks_inactive_iff
  by blast

lemma one_shard_ticks:
  "shards one_shard \<noteq> []" "burst.active one_shard"
  "shards (Burst_ticks 1 one_shard) = []" "burst.active (Burst_ticks 1 one_shard)"
  by (simp_all add: one_shard_def Burst_def imagePraticleEmitter_def valueOrRange_def
      randomBetween_def or_default_def pickFromList_def upt_rec Burst_tick_def
      burst_loop.simps advance_shard_def splice1_def)

lemma one_wave_ticks:
  "waves one_wave \<noteq> []" "blastWave.active one_wave"
  "waves (BlastWave_ticks 1 one_wave) = []" "blastWave.active (BlastWave_ticks 1 one_wave)"
  by (simp_all add: one_wave_def BlastWave_def radialWaveEmitter_def valueOrRange_def
      randomBetween_def upt_rec BlastWave_tick_def
      wave_loop.simps advance_wave_def splice1_def)

theorem effect_goes_inactive_once_witness:
  "Burst_tick (one_shard\<lparr>burst.active := False\<rparr>) = (one_shard\<lparr>burst.active := False\<rparr>, []) \<and>
   burst.active one_shard \<and> burst.active (Burst_ticks 1 one_shard) \<and>
   \<not> burst.active (Burst_ticks 2 one_shard) \<and>
   BlastWave_tick (one_wave\<lparr>blastWave.active := False\<rparr>) = (one_wave\<lparr>blastWave.active := False\<rparr>, []) \<and>
   blastWave.active one_wave \<and> blastWave.active (BlastWave_ticks 1 one_wave) \<and>
   \<not> blastWave.active (BlastWave_ticks 2 one_wave)"
proof -
  have "(1::nat) < 2"
    by simp
  then have ex: "\<exists>k<2. shards (Burst_ticks k one_shard) = []"
    "\<exists>k<2. waves (BlastWave_ticks k one_wave) = []"
    using one_shard_ticks(3) one_wave_ticks(3) by blast+
  from effect_goes_inactive_once
         [of "one_shard\<lparr>burst.active := False\<rparr>" one_shard 2
             "one_wave\<lparr>blastWave.active := False\<rparr>" one_wave]
  show ?thesis
    using ex one_shard_ticks(2,4) one_wave_ticks(2,4) by simp
qed

text \<open>
  Claim C2 says that within one tick every particle present at tick-start is either
  advanced and rendered or removed, and that a removal never makes the loop skip a
  particle. \<open>Burst.tick\<close> splices inside a forward \<open>for\<close> loop without stepping the
  index back: on the burst of two shards the first shard burns out (radius 0.5) and is
  removed, the second moves into slot 0 and the loop ends. The second shard is still in
  the collection, with its position and radius untouched, and only the first was drawn.
\<close>

theorem burst_tick_skips_shard:
  "Burst_tick two_shards =
     (\<lparr>burst.active = True, burnRate = 9 / 2,
       shards = [\<lparr>shard.image = Some ''foodImage1'', x = 0, y = 0, r = 0, rd = 20,
                  vx = - 10, vy = - 10, dr = 1\<rparr>]\<rparr>,
      [\<lparr>shard.image = Some ''foodImage1'', x = - 10, y = - 10, r = 1 / 10, rd = 1 / 2,
        vx = - 10, vy = - 10, dr = 1\<rparr>])"
  by (simp add: two_shards_def Burst_def imagePraticleEmitter_def valueOrRange_def randomBetween_def or_default_def pickFromList_def upt_rec Burst_tick_def burst_loop.simps advance_shard_def splice1_def)

lemma life_step:
  assumes "0 < b" and "1 \<le> v - b"
  shows "life b (v - b) + 1 = life b v"
proof -
  have "(v - b - 1) / b = (v - 1) / b - 1"
    using assms(1) by (simp add: diff_divide_distrib)
  then have fl: "\<lfloor>(v - b - 1) / b\<rfloor> = \<lfloor>(v - 1) / b\<rfloor> - 1"
    by simp
  have "1 \<le> (v - 1) / b"
    using assms by (simp add: le_divide_eq)
  then have "1 \<le> \<lfloor>(v - 1) / b\<rfloor>"
    by (simp add: le_floor_iff)
  with fl show ?thesis
    unfolding life_def by linarith
qed

lemma life_pos: "Suc 0 \<le> life b v"
  by (simp add: life_def)

lemma sum_list_map_splice1:
  fixes f :: "'a \<Rightarrow> nat"
  assumes "i < length xs"
  shows "sum_list (map f (splice1 i xs)) + f (xs ! i) = sum_list (map f xs)"
proof -
  have "xs = take i xs @ xs ! i # drop (Suc i) xs"
    using assms by (rule id_take_nth_drop)
  then have "sum_list (map f xs) = sum_list (map f (take i xs @ xs ! i # drop (Suc i) xs))"
    by simp
  then show ?thesis
    by (simp add: splice1_def)
qed

lemma splice1_update: "splice1 i (xs[i := v]) = splice1 i xs"
  by (simp add: splice1_def)

lemma sum_list_map_update:
  fixes f :: "'a \<Rightarrow> nat"
  assumes "i < length xs"
  shows "sum_list (map f (xs[i := v])) + f (xs ! i) = sum_list (map f xs) + f v"
proof -
  have "sum_list (map f (splice1 i (xs[i := v]))) + f (xs[i := v] ! i) = sum_list (map f (xs[i := v]))"
    using assms by (intro sum_list_map_splice1) simp
  moreover have "sum_list (map f (splice1 i xs)) + f (xs ! i) = sum_list (map f xs)"
    using assms by (rule sum_list_map_splice1)
  ultimately show ?thesis
    using assms by (simp add: splice1_update)
qed

lemma Burst_fields [simp]:
  "burst.active (Burst n img x0 y0 vx0 vy0 rate draw)"
  "burst.burnRate (Burst n img x0 y0 vx0 vy0 rate draw) = rate"
  "length (shards (Burst n img x0 y0 vx0 vy0 rate draw)) = n"
  by (simp_all add: Burst_def imagePraticleEmitter_def)

lemma first_inactive:
  fixes P :: "nat \<Rightarrow> bool"
  assumes "\<exists>k. \<not> P k"
  shows "\<exists>m. \<not> P m \<and> (\<forall>j<m. P j)"
proof -
  from assms obtain k where "\<not> P k"
    by blast
  then have "\<not> P (LEAST k. \<not> P k)"
    by (rule LeastI [where P = "\<lambda>k. \<not> P k"])
  moreover have "\<forall>j<LEAST k. \<not> P k. P j"
    using not_less_Least by blast
  ultimately show ?thesis
    by blast
qed

subsection \<open>Burn-out in binary64\<close>

lemma life_mono:
  assumes "0 < d" "z \<le> v"
  shows "life d z \<le> life d v"
proof -
  have "(z - 1) / d \<le> (v - 1) / d"
    using assms by (simp add: divide_right_mono)
  then have "\<lfloor>(z - 1) / d\<rfloor> \<le> \<lfloor>(v - 1) / d\<rfloor>"
    by (rule floor_mono)
  then show ?thesis
    by (simp add: life_def nat_mono)
qed

lemma life_decrease:
  assumes "0 < d" "1 \<le> z" "z \<le> v - d"
  shows "life d z < life d v"
proof -
  have "life d z \<le> life d (v - d)"
    using assms(1,3) by (rule life_mono)
  moreover have "life d (v - d) + 1 = life d v"
    using assms by (intro life_step) simp_all
  ultimately show ?thesis
    by linarith
qed

lemma shard64_step:
  assumes "is_double b" "2 powi (- 49) < b" "b < 2" "1 \<le> v" "v < 32"
  obtains z where "abs64 (sub64 (Fin v) (Fin b)) = Fin z"
    and "z < 1 \<or> (1 \<le> z \<and> z \<le> v - (b - 2 powi (- 49)))"
proof -
  define t where "t = v - b"
  have b0: "0 < b"
    using assms(2) pow2_pos [of "- 49"] by linarith
  have b2: "b \<le> 2 - 1 / 2 ^ 52"
    using assms(1,3) by (rule double_below_2)
  have t: "- 1 + 1 / 2 ^ 52 \<le> t" "t < 32"
    using assms(4,5) b0 b2 by (simp_all add: t_def)
  then have "\<bar>t\<bar> \<le> 2 ^ 1023"
    by (simp add: abs_if)
  from round64_finite [OF this] obtain w where w: "round64 t = Fin w"
    by blast
  have val: "abs64 (sub64 (Fin v) (Fin b)) = Fin \<bar>w\<bar>"
    using w by (simp add: sub64_def t_def)
  have "\<bar>t\<bar> < 2 powi 5"
    using t by (simp add: abs_if)
  from round64_error_below [OF w this] have err: "\<bar>w - t\<bar> \<le> 2 powi (- 49)"
    by simp
  have "\<bar>w\<bar> < 1 \<or> (1 \<le> \<bar>w\<bar> \<and> \<bar>w\<bar> \<le> v - (b - 2 powi (- 49)))"
  proof (cases "0 \<le> w")
    case True
    have "w - t \<le> 2 powi (- 49)"
      using abs_ge_self err by (rule order_trans)
    with True show ?thesis
      unfolding t_def by linarith
  next
    case False
    then have neg: "t < 0"
      using round64_sign(1) [OF w] by force
    with t(1) have "\<bar>t\<bar> < 2 powi 0"
      by (simp add: abs_if)
    from round64_error_below [OF w this] have "\<bar>w - t\<bar> \<le> 2 powi (- 54)"
      by simp
    then have "\<bar>w - t\<bar> \<le> 1 / 2 ^ 54"
      by (simp add: power_int_minus_divide)
    then have "t - 1 / 2 ^ 54 \<le> w"
      by linarith
    with t(1) have "- 1 + 1 / 2 ^ 52 - 1 / 2 ^ 54 \<le> w"
      by linarith
    then have "- 1 < w"
      by simp
    with False show ?thesis
      by simp
  qed
  with val show ?thesis
    by (rule that)
qed

lemma wave64_step:
  assumes "is_double c" "2 powi (- 47) < c" "v < 64"
  shows "less64 (sub64 (Fin v) (div64 (Fin c) (Fin 2))) (Fin 1) \<or>
         (\<exists>z. sub64 (Fin v) (div64 (Fin c) (Fin 2)) = Fin z \<and> 1 \<le> z \<and>
               z \<le> v - (c / 2 - 2 powi (- 48)))"
proof -
  define t where "t = v - c / 2"
  have "(2::real) powi (- 1021) \<le> 2 powi (- 47)"
    by (intro power_int_increasing) simp_all
  with assms(2) have "2 powi (- 1021) \<le> \<bar>c\<bar>"
    by linarith
  with assms(1) have "round64 (c / 2) = Fin (c / 2)"
    by (rule double_half)
  then have val: "sub64 (Fin v) (div64 (Fin c) (Fin 2)) = round64 t"
    by (simp add: sub64_def t_def)
  have c0: "0 < c"
    using assms(2) pow2_pos [of "- 47"] by linarith
  with assms(3) have t64: "t < 64"
    by (simp add: t_def)
  show ?thesis
  proof (cases "round64 t")
    case (Fin w)
    show ?thesis
    proof (cases "w < 1")
      case True
      with Fin show ?thesis
        unfolding val by simp
    next
      case False
      have "0 \<le> t"
      proof (rule ccontr)
        assume "\<not> 0 \<le> t"
        then have "w \<le> 0"
          using round64_sign(2) [OF Fin] by simp
        with False show False
          by simp
      qed
      with t64 have "\<bar>t\<bar> < 2 powi 6"
        by (simp add: abs_if)
      from round64_error_below [OF Fin this] have "\<bar>w - t\<bar> \<le> 2 powi (- 48)"
        by simp
      with abs_ge_self have "w - t \<le> 2 powi (- 48)"
        by (rule order_trans)
      then have "w \<le> v - (c / 2 - 2 powi (- 48))"
        unfolding t_def by linarith
      with False Fin show ?thesis
        unfolding val by simp
    qed
  next
    case PosInf
    then have "2 ^ 1023 < t"
      by (rule round64_PosInf)
    moreover have "(64::real) \<le> 2 ^ 1023"
      by simp
    ultimately show ?thesis
      using t64 by linarith
  next
    case NegInf
    then show ?thesis
      unfolding val by simp
  next
    case NaN
    then show ?thesis
      by simp
  qed
qed

lemma tick_loop_unfold:
  assumes "i < length ps"
  shows "tick_loop advance burned i ps drawn =
           tick_loop advance burned (i + 1)
             (if burned (advance (ps ! i)) then splice1 i ps else ps[i := advance (ps ! i)])
             (drawn @ [advance (ps ! i)])"
  using assms by (subst tick_loop.simps) (simp add: Let_def splice1_update)

lemma tick_loop_done: "\<not> i < length ps \<Longrightarrow> tick_loop advance burned i ps drawn = (ps, drawn)"
  by (subst tick_loop.simps) simp

lemma tick_loop_variant:
  fixes f :: "'p \<Rightarrow> nat"
  assumes "\<forall>p. I p \<longrightarrow> burned (advance p) \<or> (I (advance p) \<and> f (advance p) < f p)"
    and "\<forall>p. I p \<longrightarrow> 0 < f p"
    and "\<forall>p\<in>set ps. I p"
  shows "(\<forall>p\<in>set (fst (tick_loop advance burned i ps drawn)). I p) \<and>
         sum_list (map f (fst (tick_loop advance burned i ps drawn)))
           + (if i < length ps then 1 else 0) \<le> sum_list (map f ps)"
  using assms
proof (induction advance burned i ps drawn rule: tick_loop.induct)
  case (1 advance burned i ps drawn)
  note step = "1.prems"(1) and pos = "1.prems"(2) and inv = "1.prems"(3)
  show ?case
  proof (cases "i < length ps")
    case False
    then show ?thesis
      using inv by (simp add: tick_loop_done)
  next
    case True
    define p' where "p' = advance (ps ! i)"
    define ps' where "ps' = (if burned p' then splice1 i ps else ps[i := p'])"
    have unfold: "tick_loop advance burned i ps drawn = tick_loop advance burned (i + 1) ps' (drawn @ [p'])"
      using True by (simp add: tick_loop_unfold p'_def ps'_def)
    have I_i: "I (ps ! i)"
      using True inv by simp
    have both: "(\<forall>p\<in>set ps'. I p) \<and> sum_list (map f ps') + 1 \<le> sum_list (map f ps)"
    proof (cases "burned p'")
      case dead: True
      have "set (splice1 i ps) \<subseteq> set ps"
        by (auto simp: splice1_def dest: in_set_takeD in_set_dropD)
      then have "\<forall>p\<in>set ps'. I p"
        using dead inv by (auto simp: ps'_def)
      moreover have "sum_list (map f ps') + f (ps ! i) = sum_list (map f ps)"
        using dead True by (simp add: ps'_def sum_list_map_splice1)
      moreover have "0 < f (ps ! i)"
        using I_i pos by simp
      ultimately show ?thesis
        by linarith
    next
      case alive: False
      with step I_i have p': "I p'" "f p' < f (ps ! i)"
        by (auto simp: p'_def)
      have "set (ps[i := p']) \<subseteq> insert p' (set ps)"
        by (rule set_update_subset_insert)
      then have "\<forall>p\<in>set ps'. I p"
        using alive p'(1) inv by (auto simp: ps'_def)
      moreover have "sum_list (map f ps') + f (ps ! i) = sum_list (map f ps) + f p'"
        using alive True by (simp add: ps'_def sum_list_map_update)
      ultimately show ?thesis
        using p'(2) by linarith
    qed
    have "(\<forall>p\<in>set (fst (tick_loop advance burned (i + 1) ps' (drawn @ [p']))). I p) \<and>
         sum_list (map f (fst (tick_loop advance burned (i + 1) ps' (drawn @ [p']))))
           + (if i + 1 < length ps' then 1 else 0) \<le> sum_list (map f ps')"
    proof (rule "1.IH" [OF True])
      show "p' = advance (ps ! i)"
        by (rule p'_def)
      show "ps' = (if burned p' then splice1 i (ps[i := p']) else ps[i := p'])"
        by (simp add: ps'_def splice1_update)
      show "\<forall>p\<in>set ps'. I p"
        using both by simp
    qed (rule step, rule pos)
    then have "(\<forall>p\<in>set (fst (tick_loop advance burned (i + 1) ps' (drawn @ [p']))). I p) \<and>
         sum_list (map f (fst (tick_loop advance burned (i + 1) ps' (drawn @ [p'])))) \<le> sum_list (map f ps')"
      by (simp split: if_splits)
    with both show ?thesis
      using True by (simp add: unfold)
  qed
qed

lemma Burst64_tick_nonempty:
  assumes "burst64.active64 e" "shards64 e \<noteq> []"
  shows "fst (Burst64_tick e) =
           e\<lparr>shards64 := fst (tick_loop (advance_shard64 (burst64.burnRate64 e))
                                 (\<lambda>shard. less64 (shard64.rd64 shard) (Fin 1)) 0 (shards64 e) [])\<rparr>"
  using assms by (simp add: Burst64_tick_def split: prod.splits)

lemma Burst64_tick_stops:
  assumes "\<not> (burst64.active64 e \<and> shards64 e \<noteq> [])"
  shows "\<not> burst64.active64 (fst (Burst64_tick e))"
  using assms by (auto simp: Burst64_tick_def)

lemma Burst64_ticks_Suc_first: "Burst64_ticks (Suc k) e = Burst64_ticks k (fst (Burst64_tick e))"
  by (induction k) simp_all

lemma shard64_variant:
  assumes "is_double b" "2 powi (- 49) < b" "b < 2" "shard_fits s"
  shows "less64 (shard64.rd64 (advance_shard64 (Fin b) s)) (Fin 1) \<or>
         (shard_fits (advance_shard64 (Fin b) s) \<and>
          shard_life64 (b - 2 powi (- 49)) (advance_shard64 (Fin b) s)
            < shard_life64 (b - 2 powi (- 49)) s)"
proof -
  from assms(4) obtain v where v: "shard64.rd64 s = Fin v" "1 \<le> v" "v < 32"
    by (auto simp: shard_fits_def split: jsnum.splits)
  from shard64_step [OF assms(1-3) v(2,3)] obtain z where
    z: "abs64 (sub64 (Fin v) (Fin b)) = Fin z"
      "z < 1 \<or> (1 \<le> z \<and> z \<le> v - (b - 2 powi (- 49)))"
    by blast
  have rd': "shard64.rd64 (advance_shard64 (Fin b) s) = Fin z"
    by (simp add: advance_shard64_def v(1) z(1))
  show ?thesis
  proof (cases "z < 1")
    case True
    then show ?thesis
      by (simp add: rd')
  next
    case False
    with z(2) have z': "1 \<le> z" "z \<le> v - (b - 2 powi (- 49))"
      by simp_all
    have d: "0 < b - 2 powi (- 49)"
      using assms(2) by simp
    then have "z < v"
      using z'(2) by linarith
    with z'(1) v(3) have "shard_fits (advance_shard64 (Fin b) s)"
      by (simp add: shard_fits_def rd')
    moreover have "life (b - 2 powi (- 49)) z < life (b - 2 powi (- 49)) v"
      using d z' by (rule life_decrease)
    ultimately show ?thesis
      by (simp add: shard_life64_def rd' v(1))
  qed
qed

lemma Burst64_burns_out:
  assumes "burst64.burnRate64 e = Fin b" "is_double b" "2 powi (- 49) < b" "b < 2"
    and "\<forall>s\<in>set (shards64 e). shard_fits s"
  shows "\<exists>k. \<not> burst64.active64 (Burst64_ticks k e)"
  using assms(1,5)
proof (induction "sum_list (map (shard_life64 (b - 2 powi (- 49))) (shards64 e))" arbitrary: e
       rule: less_induct)
  case less
  let ?f = "shard_life64 (b - 2 powi (- 49))"
  show ?case
  proof (cases "burst64.active64 e \<and> shards64 e \<noteq> []")
    case False
    then have "\<not> burst64.active64 (Burst64_ticks (Suc 0) e)"
      by (simp add: Burst64_tick_stops)
    then show ?thesis
      by blast
  next
    case True
    define e' where "e' = fst (Burst64_tick e)"
    have e': "e' = e\<lparr>shards64 := fst (tick_loop (advance_shard64 (Fin b))
                                 (\<lambda>shard. less64 (shard64.rd64 shard) (Fin 1)) 0 (shards64 e) [])\<rparr>"
      using True by (simp add: e'_def Burst64_tick_nonempty less.prems(1))
    have "(\<forall>p\<in>set (fst (tick_loop (advance_shard64 (Fin b))
                 (\<lambda>shard. less64 (shard64.rd64 shard) (Fin 1)) 0 (shards64 e) [])). shard_fits p) \<and>
         sum_list (map ?f (fst (tick_loop (advance_shard64 (Fin b))
                 (\<lambda>shard. less64 (shard64.rd64 shard) (Fin 1)) 0 (shards64 e) [])))
           + (if 0 < length (shards64 e) then 1 else 0) \<le> sum_list (map ?f (shards64 e))"
    proof (rule tick_loop_variant)
      show "\<forall>p. shard_fits p \<longrightarrow>
              less64 (shard64.rd64 (advance_shard64 (Fin b) p)) (Fin 1) \<or>
              (shard_fits (advance_shard64 (Fin b) p) \<and> ?f (advance_shard64 (Fin b) p) < ?f p)"
        using shard64_variant [OF assms(2-4)] by blast
      show "\<forall>p. shard_fits p \<longrightarrow> 0 < ?f p"
        using life_pos by (auto simp: shard_life64_def less_eq_Suc_le split: jsnum.splits)
      show "\<forall>p\<in>set (shards64 e). shard_fits p"
        by (rule less.prems(2))
    qed
    moreover have "0 < length (shards64 e)"
      using True by simp
    ultimately have inv: "\<forall>s\<in>set (shards64 e'). shard_fits s"
      and dec: "sum_list (map ?f (shards64 e')) < sum_list (map ?f (shards64 e))"
      by (simp_all add: e')
    have "burst64.burnRate64 e' = Fin b"
      by (simp add: e' less.prems(1))
    with less.hyps [OF dec] inv obtain k where "\<not> burst64.active64 (Burst64_ticks k e')"
      by blast
    then have "\<not> burst64.active64 (Burst64_ticks (Suc k) e)"
      unfolding e'_def Burst64_ticks_Suc_first .
    then show ?thesis
      by blast
  qed
qed

lemma BlastWave64_tick_nonempty:
  assumes "blastWave64.active64 e" "waves64 e \<noteq> []"
  shows "fst (BlastWave64_tick e) =
           e\<lparr>waves64 := fst (tick_loop (advance_wave64 (blastWave64.burnRate64 e))
                                 (\<lambda>wave. less64 (width64 wave) (Fin 1)) 0 (waves64 e) [])\<rparr>"
  using assms by (simp add: BlastWave64_tick_def split: prod.splits)

lemma BlastWave64_tick_stops:
  assumes "\<not> (blastWave64.active64 e \<and> waves64 e \<noteq> [])"
  shows "\<not> blastWave64.active64 (fst (BlastWave64_tick e))"
  using assms by (auto simp: BlastWave64_tick_def)

lemma BlastWave64_ticks_Suc_first:
  "BlastWave64_ticks (Suc k) e = BlastWave64_ticks k (fst (BlastWave64_tick e))"
  by (induction k) simp_all

lemma wave64_variant:
  assumes "is_double c" "2 powi (- 47) < c" "width64 w = Fin v" "v < 64"
  shows "less64 (width64 (advance_wave64 (Fin c) w)) (Fin 1) \<or>
         (wave_fits (advance_wave64 (Fin c) w) \<and>
          wave_life64 (c / 2 - 2 powi (- 48)) (advance_wave64 (Fin c) w)
            < wave_life64 (c / 2 - 2 powi (- 48)) w)"
proof -
  note v = assms(3,4)
  have width': "width64 (advance_wave64 (Fin c) w) = sub64 (Fin v) (div64 (Fin c) (Fin 2))"
    by (simp add: advance_wave64_def v(1))
  have "(2::real) powi (- 47) = 2 * 2 powi (- 48)"
    using power_int_add [of "2::real" 1 "- 48"] by simp
  with assms(2) have d: "0 < c / 2 - 2 powi (- 48)"
    by linarith
  from wave64_step [OF assms(1,2) v(2)] show ?thesis
  proof
    assume "less64 (sub64 (Fin v) (div64 (Fin c) (Fin 2))) (Fin 1)"
    then show ?thesis
      by (simp only: width' simp_thms)
  next
    assume "\<exists>z. sub64 (Fin v) (div64 (Fin c) (Fin 2)) = Fin z \<and> 1 \<le> z \<and>
                z \<le> v - (c / 2 - 2 powi (- 48))"
    then obtain z where z: "width64 (advance_wave64 (Fin c) w) = Fin z" "1 \<le> z"
      "z \<le> v - (c / 2 - 2 powi (- 48))"
      unfolding width' by blast
    have "z < v"
      using d z(3) by linarith
    with v(2) have "wave_fits (advance_wave64 (Fin c) w)"
      by (simp add: wave_fits_def z(1))
    moreover have "life (c / 2 - 2 powi (- 48)) z < life (c / 2 - 2 powi (- 48)) v"
      using d z(2,3) by (rule life_decrease)
    ultimately show ?thesis
      by (simp add: wave_life64_def z(1) v(1))
  qed
qed

lemma wave64_burned_from_minus_infinity:
  assumes "is_double c" "2 powi (- 47) < c" "width64 w = NegInf"
  shows "less64 (width64 (advance_wave64 (Fin c) w)) (Fin 1)"
proof -
  have "(2::real) powi (- 1021) \<le> 2 powi (- 47)"
    by (intro power_int_increasing) simp_all
  with assms(2) have "2 powi (- 1021) \<le> \<bar>c\<bar>"
    by linarith
  with assms(1) have "round64 (c / 2) = Fin (c / 2)"
    by (rule double_half)
  then show ?thesis
    by (simp add: advance_wave64_def assms(3) sub64_def)
qed

lemma wave64_burned_by_infinity:
  assumes "wave_fits w"
  shows "less64 (width64 (advance_wave64 PosInf w)) (Fin 1)"
  using assms by (cases "width64 w") (simp_all add: wave_fits_def advance_wave64_def sub64_def)

lemma wave64_visit:
  assumes "fast_enough b" "wave_fits w"
  shows "less64 (width64 (advance_wave64 b w)) (Fin 1) \<or>
         (wave_fits (advance_wave64 b w) \<and>
          wave_life64 (wave_decrement b) (advance_wave64 b w) < wave_life64 (wave_decrement b) w)"
proof (cases b)
  case (Fin c)
  with assms(1) have c: "is_double c" "2 powi (- 47) < c"
    by (simp_all add: fast_enough_def)
  show ?thesis
  proof (cases "width64 w")
    case width: (Fin v)
    with assms(2) have "v < 64"
      by (simp add: wave_fits_def)
    from wave64_variant [OF c width this] show ?thesis
      by (simp add: Fin wave_decrement_def)
  next
    case NegInf
    from wave64_burned_from_minus_infinity [OF c this] show ?thesis
      by (simp add: Fin)
  qed (use assms(2) in \<open>simp_all add: wave_fits_def\<close>)
next
  case PosInf
  with wave64_burned_by_infinity [OF assms(2)] show ?thesis
    by simp
qed (use assms(1) in \<open>simp_all add: fast_enough_def\<close>)

lemma BlastWave64_burns_out:
  assumes "fast_enough (blastWave64.burnRate64 e)"
    and "\<forall>w\<in>set (waves64 e). wave_fits w"
  shows "\<exists>k. \<not> blastWave64.active64 (BlastWave64_ticks k e)"
  using assms
proof (induction "sum_list (map (wave_life64 (wave_decrement (blastWave64.burnRate64 e))) (waves64 e))"
       arbitrary: e rule: less_induct)
  case less
  define b where "b = blastWave64.burnRate64 e"
  let ?f = "wave_life64 (wave_decrement b)"
  have fast: "fast_enough b"
    using less.prems(1) by (simp add: b_def)
  show ?case
  proof (cases "blastWave64.active64 e \<and> waves64 e \<noteq> []")
    case False
    then have "\<not> blastWave64.active64 (BlastWave64_ticks (Suc 0) e)"
      by (simp add: BlastWave64_tick_stops)
    then show ?thesis
      by blast
  next
    case True
    define e' where "e' = fst (BlastWave64_tick e)"
    have e': "e' = e\<lparr>waves64 := fst (tick_loop (advance_wave64 b)
                                 (\<lambda>wave. less64 (width64 wave) (Fin 1)) 0 (waves64 e) [])\<rparr>"
      using True by (simp add: e'_def BlastWave64_tick_nonempty b_def)
    have "(\<forall>p\<in>set (fst (tick_loop (advance_wave64 b)
                 (\<lambda>wave. less64 (width64 wave) (Fin 1)) 0 (waves64 e) [])). wave_fits p) \<and>
         sum_list (map ?f (fst (tick_loop (advance_wave64 b)
                 (\<lambda>wave. less64 (width64 wave) (Fin 1)) 0 (waves64 e) [])))
           + (if 0 < length (waves64 e) then 1 else 0) \<le> sum_list (map ?f (waves64 e))"
    proof (rule tick_loop_variant)
      show "\<forall>p. wave_fits p \<longrightarrow>
              less64 (width64 (advance_wave64 b p)) (Fin 1) \<or>
              (wave_fits (advance_wave64 b p) \<and> ?f (advance_wave64 b p) < ?f p)"
        using wave64_visit [OF fast] by blast
      show "\<forall>p. wave_fits p \<longrightarrow> 0 < ?f p"
        using life_pos by (auto simp: wave_life64_def less_eq_Suc_le split: jsnum.splits)
      show "\<forall>p\<in>set (waves64 e). wave_fits p"
        by (rule less.prems(2))
    qed
    moreover have "0 < length (waves64 e)"
      using True by simp
    ultimately have inv: "\<forall>w\<in>set (waves64 e'). wave_fits w"
      and dec: "sum_list (map ?f (waves64 e')) < sum_list (map ?f (waves64 e))"
      by (simp_all add: e')
    have rate': "blastWave64.burnRate64 e' = b"
      by (simp add: e' b_def)
    have "\<exists>k. \<not> blastWave64.active64 (BlastWave64_ticks k e')"
    proof (rule less.hyps)
      show "sum_list (map (wave_life64 (wave_decrement (blastWave64.burnRate64 e'))) (waves64 e'))
              < sum_list (map (wave_life64 (wave_decrement (blastWave64.burnRate64 e))) (waves64 e))"
        using dec by (simp add: rate' b_def)
      show "fast_enough (blastWave64.burnRate64 e')"
        using fast by (simp add: rate')
      show "\<forall>w\<in>set (waves64 e'). wave_fits w"
        by (rule inv)
    qed
    then obtain k where "\<not> blastWave64.active64 (BlastWave64_ticks k e')"
      by blast
    then have "\<not> blastWave64.active64 (BlastWave64_ticks (Suc k) e)"
      unfolding e'_def BlastWave64_ticks_Suc_first .
    then show ?thesis
      by blast
  qed
qed

lemma div64_FinD:
  assumes "div64 a (Fin 100) = Fin c"
  shows "is_double c"
proof (cases a)
  case (Fin r)
  with assms have "round64 (r / 100) = Fin c"
    by simp
  then show ?thesis
    by (rule round64_idem)
qed (use assms in simp_all)

lemma BlastWave64_fast_enough:
  assumes "less64 (Fin (2 powi (- 47))) (blastWave64.burnRate64 (BlastWave64 rate resolved))"
  shows "fast_enough (blastWave64.burnRate64 (BlastWave64 rate resolved))"
proof (cases "div64 rate (Fin 100)")
  case (Fin c)
  then have "is_double c"
    by (rule div64_FinD)
  with assms Fin show ?thesis
    by (simp add: BlastWave64_def fast_enough_def)
qed (use assms in \<open>simp_all add: BlastWave64_def fast_enough_def\<close>)

text \<open>
  Claim C9, amended. Every Burst whose burn rate is a double strictly between \<open>2^-49\<close>
  and \<open>2\<close>, its shard radii resolved within the range from 5 to 20 that the constructor
  passes to the emitter, reaches \<open>active = false\<close> after finitely many ticks. So does
  every BlastWave whose stored burn rate, the option divided by 100, is greater than
  \<open>2^-47\<close> and whose wave has a width less than 64, both in the sense of JavaScript's
  \<open><\<close>. The number \<open>m\<close> of ticks is the first at which the effect is inactive, a
  function of the constructor's inputs.
\<close>

theorem effects_burn_out64:
  "(is_double b \<and> 2 powi (- 49) < b \<and> b < 2 \<and>
    (\<forall>k<n. \<exists>v. resolved k 3 = Fin v \<and> 5 \<le> v \<and> v \<le> 20) \<longrightarrow>
      (\<exists>m. \<not> burst64.active64 (Burst64_ticks m (Burst64 n img (Fin b) resolved)) \<and>
           (\<forall>j<m. burst64.active64 (Burst64_ticks j (Burst64 n img (Fin b) resolved))))) \<and>
   (less64 (Fin (2 powi (- 47))) (blastWave64.burnRate64 (BlastWave64 rate wresolved)) \<and>
    less64 (wresolved 0 2) (Fin 64) \<longrightarrow>
      (\<exists>m. \<not> blastWave64.active64 (BlastWave64_ticks m (BlastWave64 rate wresolved)) \<and>
           (\<forall>j<m. blastWave64.active64 (BlastWave64_ticks j (BlastWave64 rate wresolved)))))"
proof (intro conjI impI)
  assume h: "is_double b \<and> 2 powi (- 49) < b \<and> b < 2 \<and>
    (\<forall>k<n. \<exists>v. resolved k 3 = Fin v \<and> 5 \<le> v \<and> v \<le> 20)"
  let ?e = "Burst64 n img (Fin b) resolved"
  have "\<forall>s\<in>set (shards64 ?e). shard_fits s"
    using h by (fastforce simp: Burst64_def imagePraticleEmitter64_def shard_fits_def)
  moreover have "burst64.burnRate64 ?e = Fin b"
    by (simp add: Burst64_def)
  ultimately have "\<exists>k. \<not> burst64.active64 (Burst64_ticks k ?e)"
    using h by (intro Burst64_burns_out [where b = b]) simp_all
  then show "\<exists>m. \<not> burst64.active64 (Burst64_ticks m ?e) \<and>
                 (\<forall>j<m. burst64.active64 (Burst64_ticks j ?e))"
    by (rule first_inactive)
next
  let ?e = "BlastWave64 rate wresolved"
  assume h: "less64 (Fin (2 powi (- 47))) (blastWave64.burnRate64 ?e) \<and>
    less64 (wresolved 0 2) (Fin 64)"
  then have "fast_enough (blastWave64.burnRate64 ?e)"
    by (intro BlastWave64_fast_enough) simp
  moreover have "\<forall>w\<in>set (waves64 ?e). wave_fits w"
    using h by (simp add: BlastWave64_def radialWaveEmitter64_def wave_fits_def)
  ultimately have "\<exists>k. \<not> blastWave64.active64 (BlastWave64_ticks k ?e)"
    by (rule BlastWave64_burns_out)
  then show "\<exists>m. \<not> blastWave64.active64 (BlastWave64_ticks m ?e) \<and>
                 (\<forall>j<m. blastWave64.active64 (BlastWave64_ticks j ?e))"
    by (rule first_inactive)
qed

theorem effects_burn_out64_witness:
  "(\<exists>m. \<not> burst64.active64
            (Burst64_ticks m (Burst64 200 (Some ''weedImage'') (round64 (1 / 100))
                                (shards_of_radius 12)))) \<and>
   (\<exists>m. \<not> blastWave64.active64
            (BlastWave64_ticks m (BlastWave64 (Fin 100) (wave_of_width 50))))"
proof -
  have "(2::real) powi (- 1022) \<le> \<bar>1 / 100\<bar>" "\<bar>1 / 100 :: real\<bar> \<le> 2 ^ 1023"
    by (simp_all add: power_int_minus_divide)
  from round64_rel_error [OF this] obtain b where
    b: "round64 (1 / 100) = Fin b" "\<bar>b - 1 / 100\<bar> \<le> \<bar>1 / 100\<bar> / 2 ^ 53"
    by blast
  have "\<bar>1 / 100 :: real\<bar> / 2 ^ 53 \<le> 1 / 200"
    by simp
  with b(2) have "1 / 200 \<le> b" "b \<le> 3 / 200"
    by linarith+
  then have range: "2 powi (- 49) < b" "b < 2"
    by (simp_all add: power_int_minus_divide)
  have d: "is_double b"
    using b(1) by (rule round64_idem)
  have "round64 1 = Fin 1"
    using round64_exact [of 1 1 0] by simp
  then have r: "blastWave64.burnRate64 (BlastWave64 (Fin 100) (wave_of_width 50)) = Fin 1"
    by (simp add: BlastWave64_def)
  have p: "(2::real) powi (- 47) < 1"
    by (simp add: power_int_minus_divide)
  from effects_burn_out64
         [of b 200 "shards_of_radius 12" "Some ''weedImage''" "Fin 100" "wave_of_width 50"]
  show ?thesis
    using d r p range by (auto simp: b(1) shards_of_radius_def wave_of_width_def)
qed

subsection \<open>Effects that never burn out\<close>

lemma round64_minus5: "round64 (- 5) = Fin (- 5)"
  using round64_exact [of "- 5" "- 5" 0] by simp

lemma round64_5_tiny: "round64 (5 - 1 / 2 ^ 60) = Fin 5"
proof -
  let ?v = "5 - 1 / 2 ^ 60 :: real"
  have "round_half_even (?v / 2 powi (- 50)) = 5629499534213120"
    by (intro rhe_eqI) (simp_all add: power_int_minus_divide)
  then have "round64 ?v = Fin (of_int 5629499534213120 * 2 powi (- 50))"
    by (intro round64_eqI [where e = 2]) (simp_all add: power_int_minus_divide overflow64_def)
  then show ?thesis
    by (simp add: power_int_minus_divide)
qed

lemma round64_18_tie: "round64 (18 - 1 / 2 ^ 49) = Fin 18"
proof -
  let ?v = "18 - 1 / 2 ^ 49 :: real"
  have "?v / 2 powi (- 48) = of_int 5066549580791807 + 1 / 2"
    by (simp add: power_int_minus_divide)
  then have "round_half_even (?v / 2 powi (- 48)) = 5066549580791808"
    by (simp only: rhe_half) simp
  then have "round64 ?v = Fin (of_int 5066549580791808 * 2 powi (- 48))"
    by (intro round64_eqI [where e = 4]) (simp_all add: power_int_minus_divide overflow64_def)
  then show ?thesis
    by (simp add: power_int_minus_divide)
qed

lemma round64_50_tie: "round64 (50 - 1 / 2 ^ 48) = Fin 50"
proof -
  let ?v = "50 - 1 / 2 ^ 48 :: real"
  have "?v / 2 powi (- 47) = of_int 7036874417766399 + 1 / 2"
    by (simp add: power_int_minus_divide)
  then have "round_half_even (?v / 2 powi (- 47)) = 7036874417766400"
    by (simp only: rhe_half) simp
  then have "round64 ?v = Fin (of_int 7036874417766400 * 2 powi (- 47))"
    by (intro round64_eqI [where e = 5]) (simp_all add: power_int_minus_divide overflow64_def)
  then show ?thesis
    by (simp add: power_int_minus_divide)
qed

lemma round64_100_tie: "round64 (100 - 1 / 2 ^ 47) = Fin 100"
proof -
  let ?v = "100 - 1 / 2 ^ 47 :: real"
  have "?v / 2 powi (- 46) = of_int 7036874417766399 + 1 / 2"
    by (simp add: power_int_minus_divide)
  then have "round_half_even (?v / 2 powi (- 46)) = 7036874417766400"
    by (simp only: rhe_half) simp
  then have "round64 ?v = Fin (of_int 7036874417766400 * 2 powi (- 46))"
    by (intro round64_eqI [where e = 6]) (simp_all add: power_int_minus_divide overflow64_def)
  then show ?thesis
    by (simp add: power_int_minus_divide)
qed

lemma round64_pow2: "- 1074 \<le> q \<Longrightarrow> q \<le> 971 \<Longrightarrow> round64 (2 powi q) = Fin (2 powi q)"
  using round64_exact [of "2 powi q" 1 q] by simp

lemma burst64_stuck_step:
  assumes "burst64.active64 e" "burst64.burnRate64 e = Fin b" "shards64 e = [s]"
    and "shard64.rd64 s = Fin v" "abs64 (sub64 (Fin v) (Fin b)) = Fin v" "1 \<le> v"
  shows "burst64.active64 (fst (Burst64_tick e)) \<and>
         burst64.burnRate64 (fst (Burst64_tick e)) = Fin b \<and>
         (\<exists>s'. shards64 (fst (Burst64_tick e)) = [s'] \<and> shard64.rd64 s' = Fin v)"
  using assms
  by (simp add: Burst64_tick_def tick_loop.simps advance_shard64_def splice1_def Let_def)

lemma burst64_stuck:
  assumes "burst64.active64 e" "burst64.burnRate64 e = Fin b" "shards64 e = [s]"
    and "shard64.rd64 s = Fin v" "abs64 (sub64 (Fin v) (Fin b)) = Fin v" "1 \<le> v"
  shows "burst64.active64 (Burst64_ticks k e) \<and>
         burst64.burnRate64 (Burst64_ticks k e) = Fin b \<and>
         (\<exists>s'. shards64 (Burst64_ticks k e) = [s'] \<and> shard64.rd64 s' = Fin v)"
proof (induction k)
  case 0
  show ?case using assms by simp
next
  case (Suc k)
  then obtain s' where "shards64 (Burst64_ticks k e) = [s']" "shard64.rd64 s' = Fin v"
    by blast
  with Suc show ?case
    using burst64_stuck_step [of "Burst64_ticks k e" b s' v] assms(5,6) by simp
qed

lemma wave64_stuck_step:
  assumes "blastWave64.active64 e" "blastWave64.burnRate64 e = Fin c" "waves64 e = [w]"
    and "width64 w = Fin v" "sub64 (Fin v) (div64 (Fin c) (Fin 2)) = Fin v" "1 \<le> v"
  shows "blastWave64.active64 (fst (BlastWave64_tick e)) \<and>
         blastWave64.burnRate64 (fst (BlastWave64_tick e)) = Fin c \<and>
         (\<exists>w'. waves64 (fst (BlastWave64_tick e)) = [w'] \<and> width64 w' = Fin v)"
  using assms
  by (simp add: BlastWave64_tick_def tick_loop.simps advance_wave64_def splice1_def Let_def)

lemma wave64_stuck:
  assumes "blastWave64.active64 e" "blastWave64.burnRate64 e = Fin c" "waves64 e = [w]"
    and "width64 w = Fin v" "sub64 (Fin v) (div64 (Fin c) (Fin 2)) = Fin v" "1 \<le> v"
  shows "blastWave64.active64 (BlastWave64_ticks k e) \<and>
         blastWave64.burnRate64 (BlastWave64_ticks k e) = Fin c \<and>
         (\<exists>w'. waves64 (BlastWave64_ticks k e) = [w'] \<and> width64 w' = Fin v)"
proof (induction k)
  case 0
  show ?case using assms by simp
next
  case (Suc k)
  then obtain w' where "waves64 (BlastWave64_ticks k e) = [w']" "width64 w' = Fin v"
    by blast
  with Suc show ?case
    using wave64_stuck_step [of "BlastWave64_ticks k e" c w' v] assms(5,6) by simp
qed

lemma widening_step:
  assumes "widening a"
  shows "widening (sub64 a (div64 (Fin (- 1)) (Fin 2)))"
    and "\<not> less64 (sub64 a (div64 (Fin (- 1)) (Fin 2))) (Fin 1)"
proof -
  have "round64 (- (1 / 2)) = Fin (- (1 / 2))"
    using round64_exact [of "- (1 / 2)" "- 1" "- 1"] by simp
  then have half: "div64 (Fin (- 1)) (Fin 2) = Fin (- (1 / 2))"
    by simp
  have "widening (sub64 a (Fin (- (1 / 2)))) \<and> \<not> less64 (sub64 a (Fin (- (1 / 2)))) (Fin 1)"
  proof (cases a)
    case (Fin v)
    with assms have v: "50 \<le> v"
      by (simp add: widening_def)
    have val: "sub64 a (Fin (- (1 / 2))) = round64 (v + 1 / 2)"
      by (simp add: sub64_def Fin)
    show ?thesis
    proof (cases "round64 (v + 1 / 2)")
      case (Fin z)
      have "(2::real) powi (- 1022) \<le> 1"
        by (simp add: power_int_minus_divide)
      with v have "2 powi (- 1022) \<le> \<bar>v + 1 / 2\<bar>"
        by linarith
      from round64_rel_error_Fin [OF Fin this] have "\<bar>z - (v + 1 / 2)\<bar> \<le> \<bar>v + 1 / 2\<bar> / 2 ^ 53"
        .
      moreover define g where "g = (v + 1 / 2) / 2 ^ 53"
      moreover have "\<bar>v + 1 / 2\<bar> = v + 1 / 2"
        using v by simp
      ultimately have "\<bar>z - (v + 1 / 2)\<bar> \<le> g"
        by simp
      moreover have "0 \<le> g"
        unfolding g_def using v by simp
      then have "101 * g \<le> 2 ^ 53 * g"
        by (intro mult_right_mono) simp_all
      moreover have "2 ^ 53 * g = v + 1 / 2"
        by (simp add: g_def)
      ultimately have "50 \<le> z"
        using v by linarith
      with Fin show ?thesis
        unfolding val by (simp add: widening_def)
    next
      case PosInf
      then show ?thesis
        unfolding val by (simp add: widening_def)
    next
      case NegInf
      then have "v + 1 / 2 < - (2 ^ 1023)"
        by (rule round64_NegInf)
      moreover have "(0::real) \<le> 2 ^ 1023"
        by simp
      ultimately show ?thesis
        using v by linarith
    next
      case NaN
      then show ?thesis
        by simp
    qed
  qed (use assms in \<open>simp_all add: widening_def sub64_def\<close>)
  then show "widening (sub64 a (div64 (Fin (- 1)) (Fin 2)))"
    and "\<not> less64 (sub64 a (div64 (Fin (- 1)) (Fin 2))) (Fin 1)"
    unfolding half by simp_all
qed

lemma wave64_widening_step:
  assumes "blastWave64.active64 e" "blastWave64.burnRate64 e = Fin (- 1)" "waves64 e = [w]"
    and "widening (width64 w)"
  shows "blastWave64.active64 (fst (BlastWave64_tick e)) \<and>
         blastWave64.burnRate64 (fst (BlastWave64_tick e)) = Fin (- 1) \<and>
         (\<exists>w'. waves64 (fst (BlastWave64_tick e)) = [w'] \<and> widening (width64 w'))"
proof -
  have "fst (BlastWave64_tick e) = e\<lparr>waves64 := [advance_wave64 (Fin (- 1)) w]\<rparr>"
    using assms(1-3) widening_step(2) [OF assms(4)]
    by (simp add: BlastWave64_tick_def tick_loop.simps Let_def advance_wave64_def)
  moreover have "widening (width64 (advance_wave64 (Fin (- 1)) w))"
    using widening_step(1) [OF assms(4)] by (simp add: advance_wave64_def)
  ultimately show ?thesis
    using assms(1,2) by simp
qed

lemma wave64_widening:
  assumes "blastWave64.active64 e" "blastWave64.burnRate64 e = Fin (- 1)" "waves64 e = [w]"
    and "widening (width64 w)"
  shows "blastWave64.active64 (BlastWave64_ticks k e) \<and>
         blastWave64.burnRate64 (BlastWave64_ticks k e) = Fin (- 1) \<and>
         (\<exists>w'. waves64 (BlastWave64_ticks k e) = [w'] \<and> widening (width64 w'))"
proof (induction k)
  case 0
  show ?case using assms by simp
next
  case (Suc k)
  then obtain w' where "waves64 (BlastWave64_ticks k e) = [w']" "widening (width64 w')"
    by blast
  with Suc show ?case
    using wave64_widening_step [of "BlastWave64_ticks k e" w'] by simp
qed

lemma Burst64_stuck:
  assumes "abs64 (sub64 (Fin v) (Fin b)) = Fin v" "1 \<le> v"
  shows "burst64.active64 (Burst64_ticks m (Burst64 1 img (Fin b) (shards_of_radius v)))"
proof -
  let ?e = "Burst64 1 img (Fin b) (shards_of_radius v)"
  have "\<exists>s. shards64 ?e = [s] \<and> shard64.rd64 s = Fin v"
    by (simp add: Burst64_def imagePraticleEmitter64_def shards_of_radius_def)
  then obtain s where "shards64 ?e = [s]" "shard64.rd64 s = Fin v"
    by blast
  moreover have "burst64.active64 ?e" "burst64.burnRate64 ?e = Fin b"
    by (simp_all add: Burst64_def)
  ultimately show ?thesis
    using burst64_stuck [of ?e b s v m] assms by simp
qed

lemma BlastWave64_stuck:
  assumes "div64 rate (Fin 100) = Fin c" "sub64 (Fin v) (div64 (Fin c) (Fin 2)) = Fin v" "1 \<le> v"
  shows "blastWave64.active64 (BlastWave64_ticks m (BlastWave64 rate (wave_of_width v)))"
proof -
  let ?e = "BlastWave64 rate (wave_of_width v)"
  have "\<exists>w. waves64 ?e = [w] \<and> width64 w = Fin v"
    by (simp add: BlastWave64_def radialWaveEmitter64_def wave_of_width_def)
  then obtain w where "waves64 ?e = [w]" "width64 w = Fin v"
    by blast
  moreover have "blastWave64.active64 ?e" "blastWave64.burnRate64 ?e = Fin c"
    by (simp_all add: BlastWave64_def assms(1))
  ultimately show ?thesis
    using wave64_stuck [of ?e c w v m] assms by simp
qed

lemma BlastWave64_widening:
  "blastWave64.active64 (BlastWave64_ticks m (BlastWave64 (Fin (- 100)) (wave_of_width 50)))"
proof -
  let ?e = "BlastWave64 (Fin (- 100)) (wave_of_width 50)"
  have "round64 (- 1) = Fin (- 1)"
    using round64_exact [of "- 1" "- 1" 0] by simp
  then have "blastWave64.active64 ?e" "blastWave64.burnRate64 ?e = Fin (- 1)"
    by (simp_all add: BlastWave64_def)
  moreover have "\<exists>w. waves64 ?e = [w] \<and> widening (width64 w)"
    by (simp add: BlastWave64_def radialWaveEmitter64_def wave_of_width_def widening_def)
  ultimately show ?thesis
    using wave64_widening [of ?e _ m] by blast
qed

text \<open>
  Claim C9 as stated asks only for a non-zero burn rate. None of these effects ever
  becomes inactive: a Burst with burn rate 10 and a shard of radius 5, since
  \<open>\<bar>5 - 10\<bar> = 5\<close>; a Burst with burn rate \<open>2^-60\<close> and a shard of radius 5, and one
  with burn rate \<open>2^-49\<close> and a shard of radius 18, since \<open>5 - 2^-60\<close> rounds to 5 and
  \<open>18 - 2^-49\<close>, halfway between two doubles, rounds to 18; a BlastWave with burn rate
  \<open>-100\<close>, whose ring only widens; a BlastWave of width 50 with burn rate
  \<open>100 * 2^-47\<close>, stored as \<open>2^-47\<close>, since \<open>50 - 2^-48\<close> rounds to 50; and a
  BlastWave of width 100 with burn rate \<open>100 * 2^-46\<close>, since \<open>100 - 2^-47\<close> rounds
  to 100.
\<close>

theorem burn_rates_that_never_burn_out:
  "(\<forall>m. burst64.active64
          (Burst64_ticks m (Burst64 1 (Some ''weedImage'') (Fin 10) (shards_of_radius 5)))) \<and>
   (\<forall>m. burst64.active64
          (Burst64_ticks m (Burst64 1 (Some ''weedImage'') (Fin (1 / 2 ^ 60))
                              (shards_of_radius 5)))) \<and>
   (\<forall>m. burst64.active64
          (Burst64_ticks m (Burst64 1 (Some ''weedImage'') (Fin (1 / 2 ^ 49))
                              (shards_of_radius 18)))) \<and>
   (\<forall>m. blastWave64.active64
          (BlastWave64_ticks m (BlastWave64 (Fin (- 100)) (wave_of_width 50)))) \<and>
   (\<forall>m. blastWave64.active64
          (BlastWave64_ticks m (BlastWave64 (Fin (100 / 2 ^ 47)) (wave_of_width 50)))) \<and>
   (\<forall>m. blastWave64.active64
          (BlastWave64_ticks m (BlastWave64 (Fin (100 / 2 ^ 46)) (wave_of_width 100))))"
proof (intro conjI allI)
  fix m
  have "abs64 (sub64 (Fin 5) (Fin 10)) = Fin 5"
    using round64_minus5 by (simp add: sub64_def)
  then show "burst64.active64
          (Burst64_ticks m (Burst64 1 (Some ''weedImage'') (Fin 10) (shards_of_radius 5)))"
    by (rule Burst64_stuck) simp
  have "abs64 (sub64 (Fin 5) (Fin (1 / 2 ^ 60))) = Fin 5"
    using round64_5_tiny by (simp add: sub64_def)
  then show "burst64.active64
          (Burst64_ticks m (Burst64 1 (Some ''weedImage'') (Fin (1 / 2 ^ 60))
                              (shards_of_radius 5)))"
    by (rule Burst64_stuck) simp
  have "abs64 (sub64 (Fin 18) (Fin (1 / 2 ^ 49))) = Fin 18"
    using round64_18_tie by (simp add: sub64_def)
  then show "burst64.active64
          (Burst64_ticks m (Burst64 1 (Some ''weedImage'') (Fin (1 / 2 ^ 49))
                              (shards_of_radius 18)))"
    by (rule Burst64_stuck) simp
  show "blastWave64.active64
          (BlastWave64_ticks m (BlastWave64 (Fin (- 100)) (wave_of_width 50)))"
    by (rule BlastWave64_widening)
  have "div64 (Fin (100 / 2 ^ 47)) (Fin 100) = Fin (1 / 2 ^ 47)"
    using round64_pow2 [of "- 47"] by (simp add: power_int_minus_divide)
  moreover have "sub64 (Fin 50) (div64 (Fin (1 / 2 ^ 47)) (Fin 2)) = Fin 50"
    using round64_pow2 [of "- 48"] round64_50_tie by (simp add: power_int_minus_divide sub64_def)
  ultimately show "blastWave64.active64
          (BlastWave64_ticks m (BlastWave64 (Fin (100 / 2 ^ 47)) (wave_of_width 50)))"
    by (rule BlastWave64_stuck) simp
  have "div64 (Fin (100 / 2 ^ 46)) (Fin 100) = Fin (1 / 2 ^ 46)"
    using round64_pow2 [of "- 46"] by (simp add: power_int_minus_divide)
  moreover have "sub64 (Fin 100) (div64 (Fin (1 / 2 ^ 46)) (Fin 2)) = Fin 100"
    using round64_pow2 [of "- 47"] round64_100_tie by (simp add: power_int_minus_divide sub64_def)
  ultimately show "blastWave64.active64
          (BlastWave64_ticks m (BlastWave64 (Fin (100 / 2 ^ 46)) (wave_of_width 100)))"
    by (rule BlastWave64_stuck) simp
qed

section \<open>Spawning and game over\<close>

lemma spawn_full: 
  assumes "6 \<le> length (entities g)" "frame_count g mod 600 \<noteq> 0"
  shows "spawn e g = g"
  using assms by (simp add: spawn_def)

lemma spawn_food_only_when:
  assumes "entities (spawn e g) = entities g @ [ob]" "type ob = ''food''"
  shows "length (entities g) < 6 \<and> frame_count g mod 600 \<noteq> 0 \<and>
         (\<forall>ent\<in>set (entities g). playerSize_width g * 3 \<le> getDistance e ent (location_x e, - 200))"
  using assms
  by (auto simp: spawn_def Let_def Obstacle_def sprite.extend_def list_ex_iff not_less
           split: if_splits)

lemma spawn_appends:
  "entities (spawn e g) = entities g \<or> (\<exists>ob'. entities (spawn e g) = entities g @ [ob'])"
  by (simp add: spawn_def Let_def)

lemma spawn_other [simp]:
  "effects (spawn e g) = effects g"
  "state (spawn e g) = state g"
  "canvas_width (spawn e g) = canvas_width g"
  "player (spawn e g) = player g"
  by (simp_all add: spawn_def Let_def)

text \<open>
  Claim C8. With six or more obstacles active and a frame counter that is not a multiple
  of 600 the spawn step changes nothing. The step leaves the entities as they are or
  appends one obstacle, and when the appended obstacle is food, fewer than six entities
  were active and every one of them is at least \<open>3 * this.playerSize.width\<close> away from
  the chosen location \<open>(location_x, -200)\<close>, as \<open>getDistance\<close> measures it.
\<close>

theorem spawn_policy:
  "(6 \<le> length (entities g) \<and> frame_count g mod 600 \<noteq> 0 \<longrightarrow> spawn e g = g) \<and>
   (entities (spawn e g) = entities g \<or> (\<exists>ob'. entities (spawn e g) = entities g @ [ob'])) \<and>
   (entities (spawn e g) = entities g @ [ob] \<and> type ob = ''food'' \<longrightarrow>
      length (entities g) < 6 \<and>
      (\<forall>ent\<in>set (entities g).
          playerSize_width g * 3 \<le> getDistance e ent (location_x e, - 200)))"
  using spawn_full [of g e] spawn_food_only_when [of e g ob] spawn_appends [of e g] by blast

lemma collision_burst_length [simp]: "length (shards (collision_burst n img p rate draw)) = n"
  by (simp add: collision_burst_def)

lemma extends_refl: "extends g g"
  by (simp add: extends_def pushed_by_collisions_def)

lemma extends_trans:
  assumes "extends g g'" "extends g' g''"
  shows "extends g g''"
proof -
  from assms obtain bs cs where "effects g' = effects g @ bs" "pushed_by_collisions bs"
    "effects g'' = effects g' @ cs" "pushed_by_collisions cs"
    by (auto simp: extends_def)
  then have "effects g'' = effects g @ (bs @ cs) \<and> pushed_by_collisions (bs @ cs)"
    by (simp add: pushed_by_collisions_def)
  then show ?thesis
    using assms unfolding extends_def by metis
qed

lemma setState_score [simp]:
  "current (state (setState (\<lambda>st. st\<lparr>score := v\<rparr>) g)) = current (state g)"
  "prev (state (setState (\<lambda>st. st\<lparr>score := v\<rparr>) g)) = current (state g)"
  "effects (setState f g) = effects g"
  "canvas_width (setState f g) = canvas_width g"
  "entities (setState f g) = entities g"
  "player (setState f g) = player g"
  by (simp_all add: setState_def)

lemma entity_step_extends: "extends g (entity_step e i g)"
proof -
  have "current (state (entity_step e i g)) = current (state g)"
    by (simp add: entity_step_def Let_def)
  moreover have "canvas_width (entity_step e i g) = canvas_width g"
    by (simp add: entity_step_def Let_def)
  moreover have "\<exists>bs. effects (entity_step e i g) = effects g @ bs \<and> pushed_by_collisions bs"
    by (simp add: entity_step_def Let_def pushed_by_collisions_def)
  ultimately show ?thesis
    by (simp add: extends_def)
qed

lemma entities_loop_extends: "extends g (entities_loop e i g)"
proof (induction e i g rule: entities_loop.induct)
  case (1 e i this)
  show ?case
  proof (cases "i < length (entities this)")
    case True
    then have "entities_loop e i this = entities_loop e (i + 1) (entity_step e i this)"
      by (subst entities_loop.simps) simp
    moreover have "extends this (entity_step e i this)"
      by (rule entity_step_extends)
    moreover have "extends (entity_step e i this) (entities_loop e (i + 1) (entity_step e i this))"
      using True by (rule "1.IH")
    ultimately show ?thesis
      using extends_trans by simp
  next
    case False
    then have "entities_loop e i this = this"
      by (subst entities_loop.simps) simp
    then show ?thesis
      by (simp add: extends_refl)
  qed
qed

lemma game0_spawn:
  "entities (spawn env0 game0) =
     [food0, Obstacle \<lparr>sprite.x = 300, y = - 200, cx = 320, cy = - 180, width = 40, height = 40,
                      radius = 20, image = Some ''foodImage1''\<rparr> ''food'']"
  by (simp add: spawn_def env0_def game0_def food0_def Let_def Obstacle_def sprite.extend_def
      pickFromList_def)

lemma game0_width:
  "sprite.width (player (before_check env0 game0)) = 501"
  by (simp add: before_check_def spawn_def env0_def game0_def food0_def Let_def Obstacle_def sprite.extend_def
      pickFromList_def entities_loop.simps entity_step_def effects_loop.simps
      munch_def setState_def eat_def update_def Player_def splice1_def)

lemma before_check_extends:
  "current (state g) = ''play'' \<Longrightarrow>
   current (state (before_check e g)) = ''play'' \<and>
   canvas_width (before_check e g) = canvas_width g \<and>
   (\<exists>bs. effects (before_check e g) = effects_loop 0 (effects g) @ bs \<and> pushed_by_collisions bs)"
proof -
  assume play: "current (state g) = ''play''"
  define g1 where "g1 = (if prev (state g) = ''ready''
                         then setState (\<lambda>st. st\<lparr>current := ''play''\<rparr>) g else g)"
  define g3 where "g3 = (spawn e g1)\<lparr>effects := effects_loop 0 (effects (spawn e g1))\<rparr>"
  have g1: "current (state g1) = ''play''" "canvas_width g1 = canvas_width g"
    "effects g1 = effects g"
    using play by (simp_all add: g1_def setState_def)
  have g3: "current (state g3) = ''play''" "canvas_width g3 = canvas_width g"
    "effects g3 = effects_loop 0 (effects g)"
    using g1 by (simp_all add: g3_def)
  have "before_check e g = entities_loop e 0 g3"
    by (simp add: before_check_def Let_def g1_def g3_def)
  moreover have "extends g3 (entities_loop e 0 g3)"
    by (rule entities_loop_extends)
  ultimately show ?thesis
    using g3 by (simp add: extends_def)
qed

lemma game_over_check_fires:
  assumes "canvas_width g / 2 < sprite.width (player g)"
  shows "\<exists>b. effects (game_over_check e g) = effects g @ [b] \<and> length (shards b) = 200"
    and "current (state (game_over_check e g)) = ''over''"
    and "prev (state (game_over_check e g)) = current (state g)"
  using assms by (simp_all add: game_over_check_def Let_def setState_def)

lemma player_step_keeps [simp]:
  "effects (player_step e g) = effects g"
  "state (player_step e g) = state g"
  by (simp_all add: player_step_def Let_def)

lemma over_block_state [simp]: "state (over_block g) = state g"
  by (simp add: over_block_def)

lemma requestFrame_state [simp]: "state (requestFrame e g) = state g"
  by (simp add: requestFrame_def)

lemma ready_block_play: "current (state g) = ''play'' \<Longrightarrow> ready_block g = g"
  by (simp add: ready_block_def)

lemma play_state:
  "current (state g) = ''play'' \<Longrightarrow> state (play e g) = state (play_block e g)"
  by (simp add: play_def Let_def ready_block_play)

text \<open>
  Claim C7. On a play-state frame in which the player's width, as the game-over check
  reads it after the frame's collisions, exceeds half the canvas width: the effects
  after the play block are the ticked earlier effects, the bursts pushed by this frame's
  collisions (1 or 20 shards each) and then one burst of 200 shards; the state tag goes
  from \<open>play\<close> to \<open>over\<close>, and it is \<open>over\<close> when \<open>play()\<close> returns.
\<close>

theorem game_over_on_oversize_player:
  "current (state g) = ''play'' \<and>
   canvas_width g / 2 < sprite.width (player (before_check e g)) \<longrightarrow>
     (\<exists>bs b. effects (play_block e g) = effects_loop 0 (effects g) @ bs @ [b] \<and>
             (\<forall>c\<in>set bs. length (shards c) = 1 \<or> length (shards c) = 20) \<and>
             length (shards b) = 200) \<and>
     current (state (play_block e g)) = ''over'' \<and>
     prev (state (play_block e g)) = ''play'' \<and>
     current (state (play e g)) = ''over''"
proof (intro impI)
  assume h: "current (state g) = ''play'' \<and>
             canvas_width g / 2 < sprite.width (player (before_check e g))"
  define g' where "g' = before_check e g"
  from h before_check_extends [of g e] obtain bs where
    g': "current (state g') = ''play''" "canvas_width g' = canvas_width g"
    "effects g' = effects_loop 0 (effects g) @ bs" "pushed_by_collisions bs"
    unfolding g'_def by blast
  have big: "canvas_width g' / 2 < sprite.width (player g')"
    using h g'(2) by (simp add: g'_def)
  from game_over_check_fires(1) [OF big, of e] obtain b where
    b: "effects (game_over_check e g') = effects g' @ [b]" "length (shards b) = 200"
    by blast
  have pb: "play_block e g = player_step e (game_over_check e g')"
    using h by (simp add: play_block_def g'_def)
  have "effects (play_block e g) = effects_loop 0 (effects g) @ bs @ [b]"
    by (simp add: pb b(1) g'(3))
  moreover have "\<forall>c\<in>set bs. length (shards c) = 1 \<or> length (shards c) = 20"
    using g'(4) by (simp add: pushed_by_collisions_def list_all_iff)
  moreover have "current (state (play_block e g)) = ''over''"
    by (simp add: pb game_over_check_fires(2) [OF big])
  moreover have "prev (state (play_block e g)) = ''play''"
    by (simp add: pb game_over_check_fires(3) [OF big] g'(1))
  moreover have "current (state (play e g)) = ''over''"
    using h \<open>current (state (play_block e g)) = ''over''\<close> by (simp add: play_state)
  ultimately show "(\<exists>bs b. effects (play_block e g) = effects_loop 0 (effects g) @ bs @ [b] \<and>
             (\<forall>c\<in>set bs. length (shards c) = 1 \<or> length (shards c) = 20) \<and>
             length (shards b) = 200) \<and>
     current (state (play_block e g)) = ''over'' \<and>
     prev (state (play_block e g)) = ''play'' \<and>
     current (state (play e g)) = ''over''"
    using b(2) by blast
qed

theorem game_over_on_oversize_player_witness:
  "current (state game0) = ''play'' \<and>
   canvas_width game0 / 2 < sprite.width (player (before_check env0 game0)) \<and>
   current (state (play_block env0 game0)) = ''over'' \<and>
   prev (state (play_block env0 game0)) = ''play'' \<and>
   current (state (play env0 game0)) = ''over''"
proof -
  have h: "current (state game0) = ''play''" "canvas_width game0 = 1000"
    by (simp_all add: game0_def)
  from game_over_on_oversize_player [of game0 env0] show ?thesis
    using h by (simp add: game0_width)
qed

theorem spawn_policy_witness:
  "6 \<le> length (entities game6) \<and> frame_count game6 mod 600 \<noteq> 0 \<and> spawn env0 game6 = game6 \<and>
   entities (spawn env0 game0) = entities game0 @ [last (entities (spawn env0 game0))] \<and>
   type (last (entities (spawn env0 game0))) = ''food'' \<and>
   length (entities game0) < 6 \<and>
   playerSize_width game0 * 3 \<le> getDistance env0 food0 (location_x env0, - 200)"
proof -
  have full: "6 \<le> length (entities game6)" "frame_count game6 mod 600 \<noteq> 0"
    by (simp_all add: game6_def game0_def)
  have added: "entities (spawn env0 game0) = entities game0 @ [last (entities (spawn env0 game0))]"
    "type (last (entities (spawn env0 game0))) = ''food''"
    by (simp_all add: game0_spawn) (simp_all add: game0_def Obstacle_def sprite.extend_def)
  have ents: "set (entities game0) = {food0}"
    by (simp add: game0_def)
  from spawn_policy [of game6 env0] full have "spawn env0 game6 = game6"
    by blast
  moreover
  from spawn_policy [of game0 env0 "last (entities (spawn env0 game0))"] added
  have "length (entities game0) < 6 \<and>
        playerSize_width game0 * 3 \<le> getDistance env0 food0 (location_x env0, - 200)"
    using ents by simp
  ultimately show ?thesis
    using full added by simp
qed

end
